theory Spec2Isabelle
  imports Complex_Main "HOL-Library.Log_Nat"
begin

section \<open>The collage creator: data, exceptions and Python numbers\<close>

text \<open>
  The program is \<^verbatim>\<open>vic_collage_creator.py\<close>. Every exception the script can
  let escape (or catch) is a value of \<open>error\<close>; a function that may raise returns
  \<open>error + 'a\<close>, with \<open>Inl\<close> the exception.
\<close>

datatype error =
    ZeroDivisionError
  | OverflowError
  | ValueError
  | RecursionError
  | AttributeError
  | FileExistsError
  | ReadError string
  | WriteError string
  | ImageOpenError
  | ChainError string
  | ClientError string
  | UsageError
  | HelpExit

subsection \<open>Python floats\<close>

text \<open>
  A Python float is an IEEE-754 binary64 number. A finite one is modelled by the
  rational it denotes (the sign of zero is dropped: nothing in the script observes it).
  \<open>round_double\<close> is rounding to nearest, ties to even, with 53 significant bits,
  gradual underflow below \<open>2^-1022\<close> and overflow to an infinity from \<open>2^1024\<close> on:
  every arithmetic operation of the script on floats is the exact operation followed by
  this rounding.
\<close>

datatype pyfloat = Finite rat | PosInf | NegInf | NaN

definition pow2 :: "int \<Rightarrow> rat" where
  "pow2 k = (if 0 \<le> k then 2 ^ nat k else 1 / 2 ^ nat (- k))"

definition round_half_even :: "rat \<Rightarrow> int" where
  "round_half_even r =
     (let f = \<lfloor>r\<rfloor>; d = r - of_int f
      in if d < 1 / 2 then f
         else if 1 / 2 < d then f + 1
         else if even f then f else f + 1)"

definition ilog2 :: "rat \<Rightarrow> int" where
  \<comment> \<open>for \<open>0 < a\<close>: the \<open>k\<close> with \<open>2^k \<le> a < 2^(k+1)\<close>\<close>
  "ilog2 a =
     (case quotient_of a of
        (p, q) \<Rightarrow> let k = bitlen p - bitlen q in if pow2 k \<le> a then k else k - 1)"

definition round_double :: "rat \<Rightarrow> pyfloat" where
  "round_double x =
     (if x = 0 then Finite 0
      else let a = \<bar>x\<bar>;
               e = max (ilog2 a) (- 1022);
               q = pow2 (e - 52);
               r = of_int (round_half_even (a / q)) * q
           in if pow2 1024 \<le> r then (if 0 < x then PosInf else NegInf)
              else Finite (if 0 < x then r else - r))"

definition float_of_int :: "int \<Rightarrow> error + pyfloat" where
  \<comment> \<open>\<^verbatim>\<open>float(i)\<close>, and the implicit conversion of an int operand\<close>
  "float_of_int i =
     (case round_double (of_int i) of
        Finite r \<Rightarrow> Inr (Finite r)
      | _ \<Rightarrow> Inl OverflowError)"

fun float_mul :: "pyfloat \<Rightarrow> pyfloat \<Rightarrow> pyfloat" where
  "float_mul NaN _ = NaN"
| "float_mul _ NaN = NaN"
| "float_mul (Finite a) (Finite b) = round_double (a * b)"
| "float_mul (Finite a) PosInf = (if a = 0 then NaN else if 0 < a then PosInf else NegInf)"
| "float_mul (Finite a) NegInf = (if a = 0 then NaN else if 0 < a then NegInf else PosInf)"
| "float_mul PosInf (Finite b) = (if b = 0 then NaN else if 0 < b then PosInf else NegInf)"
| "float_mul NegInf (Finite b) = (if b = 0 then NaN else if 0 < b then NegInf else PosInf)"
| "float_mul PosInf PosInf = PosInf"
| "float_mul PosInf NegInf = NegInf"
| "float_mul NegInf PosInf = NegInf"
| "float_mul NegInf NegInf = PosInf"

fun float_div :: "pyfloat \<Rightarrow> pyfloat \<Rightarrow> error + pyfloat" where
  \<comment> \<open>\<^verbatim>\<open>a / b\<close> on floats: a zero divisor raises\<close>
  "float_div a (Finite b) =
     (if b = 0 then Inl ZeroDivisionError
      else case a of
             Finite x \<Rightarrow> Inr (round_double (x / b))
           | PosInf \<Rightarrow> Inr (if 0 < b then PosInf else NegInf)
           | NegInf \<Rightarrow> Inr (if 0 < b then NegInf else PosInf)
           | NaN \<Rightarrow> Inr NaN)"
| "float_div a NaN = Inr NaN"
| "float_div (Finite x) _ = Inr (Finite 0)"
| "float_div _ _ = Inr NaN"

fun float_le :: "pyfloat \<Rightarrow> pyfloat \<Rightarrow> bool" where
  \<comment> \<open>\<^verbatim>\<open>a <= b\<close>: exact on the values, false whenever a NaN is compared\<close>
  "float_le NaN _ = False"
| "float_le _ NaN = False"
| "float_le (Finite a) (Finite b) = (a \<le> b)"
| "float_le NegInf _ = True"
| "float_le _ PosInf = True"
| "float_le _ _ = False"

definition int_part :: "rat \<Rightarrow> int" where
  "int_part r = (if 0 \<le> r then \<lfloor>r\<rfloor> else \<lceil>r\<rceil>)"

fun py_int :: "pyfloat \<Rightarrow> error + int" where
  \<comment> \<open>\<^verbatim>\<open>int(x)\<close> on a float: truncation towards zero\<close>
  "py_int (Finite r) = Inr (int_part r)"
| "py_int NaN = Inl ValueError"
| "py_int _ = Inl OverflowError"

fun math_ceil :: "pyfloat \<Rightarrow> error + int" where
  "math_ceil (Finite r) = Inr \<lceil>r\<rceil>"
| "math_ceil NaN = Inl ValueError"
| "math_ceil _ = Inl OverflowError"

definition int_truediv :: "int \<Rightarrow> int \<Rightarrow> error + pyfloat" where
  \<comment> \<open>\<^verbatim>\<open>a / b\<close> on two ints: the exact quotient, rounded once\<close>
  "int_truediv a b =
     (if b = 0 then Inl ZeroDivisionError
      else case round_double (of_int a / of_int b) of
             Finite r \<Rightarrow> Inr (Finite r)
           | _ \<Rightarrow> Inl OverflowError)"

function isqrt :: "int \<Rightarrow> int" where
  \<comment> \<open>the integer square root, two bits at a time\<close>
  "isqrt n =
     (if n < 4 then (if n \<le> 0 then 0 else 1)
      else let s = 2 * isqrt (n div 4)
           in if (s + 1) * (s + 1) \<le> n then s + 1 else s)"
  by pat_completeness auto
termination
  by (relation "measure nat") auto

declare isqrt.simps [simp del]

definition math_sqrt :: "int \<Rightarrow> error + pyfloat" where
  \<comment> \<open>\<^verbatim>\<open>math.sqrt(i)\<close> on an int: convert, then the correctly rounded root. The
      converted value of a positive int is an integer \<open>m\<close>; its root is taken with 53
      binary places, \<open>t = \<lfloor>sqrt m * 2^53\<rfloor>\<close>. When the root is not exactly
      \<open>t / 2^53\<close> it lies strictly between \<open>t\<close> and \<open>t + 1\<close>, where no rounding
      boundary of a 53-bit format falls, so it rounds as the midpoint does.\<close>
  "math_sqrt i =
     (case float_of_int i of
        Inl e \<Rightarrow> Inl e
      | Inr x \<Rightarrow>
          (case x of
             Finite r \<Rightarrow>
               if r < 0 then Inl ValueError
               else let m = \<lfloor>r\<rfloor>; t = isqrt (m * 4 ^ 53)
                    in if t * t = m * 4 ^ 53 then Inr (round_double (of_int t / 2 ^ 53))
                       else Inr (round_double (of_int (2 * t + 1) / 2 ^ 54))
           | _ \<Rightarrow> Inl ValueError))"

subsection \<open>Strings and paths\<close>

function digits :: "int \<Rightarrow> string" where
  \<comment> \<open>the decimal digits of a non-negative int\<close>
  "digits n = (if n < 10 then [''0123456789'' ! nat n]
               else digits (n div 10) @ [''0123456789'' ! nat (n mod 10)])"
  by pat_completeness auto
termination
  by (relation "measure nat") auto

declare digits.simps [simp del]

definition str_int :: "int \<Rightarrow> string" where
  \<comment> \<open>\<^verbatim>\<open>f'{i}'\<close> for an int\<close>
  "str_int i = (if i < 0 then CHR ''-'' # digits (- i) else digits i)"

definition png_name :: "int \<Rightarrow> string" where
  \<comment> \<open>\<^verbatim>\<open>f'{token_id}.png'\<close>\<close>
  "png_name token_id = str_int token_id @ ''.png''"

definition os_path_join :: "string \<Rightarrow> string \<Rightarrow> string" where
  \<comment> \<open>\<^verbatim>\<open>os.path.join(a, b)\<close> (POSIX): an absolute \<open>b\<close> replaces \<open>a\<close>\<close>
  "os_path_join a b =
     (if b \<noteq> [] \<and> hd b = CHR ''/'' then b
      else if a = [] \<or> last a = CHR ''/'' then a @ b
      else a @ ''/'' @ b)"

fun rfind :: "char \<Rightarrow> string \<Rightarrow> nat option" where
  \<comment> \<open>index of the last occurrence\<close>
  "rfind c [] = None"
| "rfind c (x # xs) =
     (case rfind c xs of
        Some i \<Rightarrow> Some (Suc i)
      | None \<Rightarrow> if x = c then Some 0 else None)"

definition splitext_root :: "string \<Rightarrow> string" where
  \<comment> \<open>\<^verbatim>\<open>os.path.splitext(p)[0]\<close>: cut at the last dot of the last path component,
      unless that component has nothing but dots before it\<close>
  "splitext_root p =
     (case rfind CHR ''.'' p of
        None \<Rightarrow> p
      | Some dot \<Rightarrow>
          let start = (case rfind CHR ''/'' p of None \<Rightarrow> 0 | Some s \<Rightarrow> Suc s)
          in if start \<le> dot \<and> (\<exists>c \<in> set (take (dot - start) (drop start p)). c \<noteq> CHR ''.'')
             then take dot p else p)"

subsection \<open>What the script prints\<close>

text \<open>
  Printed text is kept as a list of \<open>message\<close> items. A line whose text is fixed by the
  source is a \<open>Line\<close>; where the text contains a formatted float or an exception's
  message, the item keeps the value that is formatted instead.
\<close>

datatype message =
    Line string
  | Progress string string pyfloat string
      \<comment> \<open>prefix, bar, the percentage before formatting, suffix\<close>
  | Download_error int error
      \<comment> \<open>\<^verbatim>\<open>Error downloading Vic {token_id}.png: {e}\<close>\<close>
  | Report nat pyfloat "int \<times> int" string
      \<comment> \<open>the collage details: number of file names, scale, resolution, path\<close>

section \<open>Configuration Loader\<close>

datatype json =
    JNull
  | JBool bool
  | JInt int
  | JFloat pyfloat
  | JStr string
  | JArr "json list"
  | JObj "(string \<times> json) list"
      \<comment> \<open>the items of a dict\<close>

datatype file_read =
    File_not_found
  | Read_fails string
      \<comment> \<open>any other failure of opening or reading (no permission, a directory, bytes
          that do not decode), with its message\<close>
  | File_text string

datatype decoded =
    Decoded json
  | JSONDecodeError
  | Decoder_raises error
      \<comment> \<open>any other exception of \<^verbatim>\<open>json.load\<close>: RecursionError for a text nested
          deeper than the interpreter allows, ValueError for an integer literal of more
          digits than \<^verbatim>\<open>int\<close> converts\<close>

definition load_configuration ::
    "(string \<Rightarrow> file_read) \<Rightarrow> (string \<Rightarrow> decoded) \<Rightarrow> string \<Rightarrow> message list \<times> (error + json)" where
  \<comment> \<open>\<open>open_file\<close> is what \<^verbatim>\<open>open(file_path, 'r')\<close> and reading do, \<open>json_load\<close> is
      the JSON decoder. FileNotFoundError and JSONDecodeError are caught; whatever else is
      raised in the \<^verbatim>\<open>try\<close> block goes to the caller.\<close>
  "load_configuration open_file json_load file_path =
     (case open_file file_path of
        File_not_found \<Rightarrow> ([Line (''Configuration file not found: '' @ file_path)], Inr (JObj []))
      | Read_fails msg \<Rightarrow> ([], Inl (ReadError msg))
      | File_text s \<Rightarrow>
          (case json_load s of
             Decoded v \<Rightarrow> ([], Inr v)
           | JSONDecodeError \<Rightarrow>
               ([Line (''Error decoding JSON from the file: '' @ file_path)], Inr (JObj []))
           | Decoder_raises e \<Rightarrow> ([], Inl e)))"

definition config_get :: "json \<Rightarrow> string \<Rightarrow> error + json" where
  \<comment> \<open>\<^verbatim>\<open>config.get(key)\<close>: only a dict has the method\<close>
  "config_get config key =
     (case config of
        JObj kvs \<Rightarrow> Inr (case map_of kvs key of None \<Rightarrow> JNull | Some v \<Rightarrow> v)
      | _ \<Rightarrow> Inl AttributeError)"

section \<open>Progress Reporter\<close>

definition str_repeat :: "string \<Rightarrow> int \<Rightarrow> string" where
  \<comment> \<open>\<^verbatim>\<open>s * k\<close>: empty for \<open>k \<le> 0\<close>\<close>
  "str_repeat s k = concat (replicate (nat k) s)"

definition print_progress_bar ::
    "int \<Rightarrow> int \<Rightarrow> string \<Rightarrow> string \<Rightarrow> int \<Rightarrow> string \<Rightarrow> error + message list" where
  "print_progress_bar iteration total' prefix suffix len fill =
     (case float_of_int total' of
        Inl e \<Rightarrow> Inl e
      | Inr ft \<Rightarrow>
     (case float_of_int iteration of
        Inl e \<Rightarrow> Inl e
      | Inr fi \<Rightarrow>
     (case float_div fi ft of
        Inl e \<Rightarrow> Inl e
      | Inr ratio \<Rightarrow>
          let percent = float_mul (Finite 100) ratio;
              filled_length = (len * iteration) div total';
              bar = str_repeat fill filled_length @ str_repeat ''-'' (len - filled_length)
          in Inr (Progress prefix bar percent suffix
                  # (if iteration = total' then [Line []] else [])))))"

section \<open>Images and the file system\<close>

text \<open>
  An image is its size and the picture it was made from (\<open>origin\<close>, which a resize
  keeps). The file system is what \<^verbatim>\<open>os.path.exists\<close> and the imaging library see at
  a path: nothing, a directory, a file that decodes to an image, or any other file.
\<close>

record image =
  width :: nat
  height :: nat
  origin :: string

datatype node = Directory | Image_file image | Other_file

type_synonym filesystem = "string \<Rightarrow> node option"

definition os_path_exists :: "filesystem \<Rightarrow> string \<Rightarrow> bool" where
  "os_path_exists fs p = (fs p \<noteq> None)"

definition image_open :: "filesystem \<Rightarrow> string \<Rightarrow> error + image" where
  "image_open fs p = (case fs p of Some (Image_file img) \<Rightarrow> Inr img | _ \<Rightarrow> Inl ImageOpenError)"

definition and_then :: "error + 'a \<Rightarrow> ('a \<Rightarrow> error + 'b) \<Rightarrow> error + 'b" where
  \<comment> \<open>sequencing: an exception ends the computation\<close>
  "and_then m f = (case m of Inl e \<Rightarrow> Inl e | Inr x \<Rightarrow> f x)"

definition scaled_dim :: "nat \<Rightarrow> pyfloat \<Rightarrow> error + int" where
  \<comment> \<open>\<^verbatim>\<open>int(img.width * collage_scale)\<close>: the int operand is converted, the product
      is a float product, \<^verbatim>\<open>int\<close> truncates\<close>
  "scaled_dim d collage_scale =
     and_then (float_of_int (int d)) (\<lambda>f. py_int (float_mul f collage_scale))"

definition resize :: "image \<Rightarrow> int \<times> int \<Rightarrow> error + image" where
  \<comment> \<open>\<^verbatim>\<open>img.resize(size)\<close>: the imaging library raises ValueError unless both
      sides are positive\<close>
  "resize img sz =
     (if fst sz < 1 \<or> snd sz < 1 then Inl ValueError
      else Inr (img\<lparr>width := nat (fst sz), height := nat (snd sz)\<rparr>))"

section \<open>Collage Composer\<close>

datatype draw_op =
    Paste image "int \<times> int"
  | Text "int \<times> int" string
      \<comment> \<open>\<^verbatim>\<open>draw.text\<close> with the default font, white\<close>

record collage =
  canvas_size :: "int \<times> int"
  background :: "nat \<times> nat \<times> nat"
  drawn :: "draw_op list"

datatype fs_effect = Make_dirs string | Save_image string collage

record composer_result =
  messages :: "message list"
  effects :: "fs_effect list"

fun scale_images :: "filesystem \<Rightarrow> pyfloat \<Rightarrow> string list \<Rightarrow> error + image list \<times> message list" where
  \<comment> \<open>the first loop: the scaled images, and the warnings printed\<close>
  "scale_images fs collage_scale [] = Inr ([], [])"
| "scale_images fs collage_scale (img_file # rest) =
     (let img_path = os_path_join ''vics'' img_file
      in if os_path_exists fs img_path
         then and_then (image_open fs img_path) (\<lambda>img.
              and_then (scaled_dim (width img) collage_scale) (\<lambda>w.
              and_then (scaled_dim (height img) collage_scale) (\<lambda>h.
              and_then (resize img (w, h)) (\<lambda>scaled_image.
              and_then (scale_images fs collage_scale rest) (\<lambda>(imgs, warnings).
                Inr (scaled_image # imgs, warnings))))))
         else and_then (scale_images fs collage_scale rest) (\<lambda>(imgs, warnings).
                Inr (imgs, Line (''Warning: File not found '' @ img_path) # warnings)))"

definition grid_shape :: "nat \<Rightarrow> error + int \<times> int" where
  \<comment> \<open>\<^verbatim>\<open>num_rows = int(math.sqrt(num_images))\<close>,
      \<^verbatim>\<open>num_cols = math.ceil(num_images / num_rows)\<close>\<close>
  "grid_shape num_images =
     and_then (math_sqrt (int num_images)) (\<lambda>root.
     and_then (py_int root) (\<lambda>num_rows.
     and_then (int_truediv (int num_images) num_rows) (\<lambda>quotient.
     and_then (math_ceil quotient) (\<lambda>num_cols.
       Inr (num_rows, num_cols)))))"

definition py_max :: "nat list \<Rightarrow> nat" where
  \<comment> \<open>\<^verbatim>\<open>max(...)\<close> of a non-empty sequence (the only use)\<close>
  "py_max xs = fold max (tl xs) (hd xs)"

fun paste_loop :: "filesystem \<Rightarrow> int \<Rightarrow> (string \<times> image) list \<Rightarrow> int \<times> int \<Rightarrow> draw_op list" where
  \<comment> \<open>the second loop, over \<^verbatim>\<open>zip(image_files, scaled_images)\<close>, from the cursor
      \<open>(x_offset, y_offset)\<close>\<close>
  "paste_loop fs collage_width [] (x_offset, y_offset) = []"
| "paste_loop fs collage_width ((image_file, img) # rest) (x_offset, y_offset) =
     (if os_path_exists fs (os_path_join ''vics'' image_file)
      then Paste img (x_offset, y_offset)
           # Text (x_offset, y_offset) (splitext_root image_file)
           # (let x = x_offset + int (width img)
              in if collage_width \<le> x
                 then paste_loop fs collage_width rest (0, y_offset + int (height img))
                 else paste_loop fs collage_width rest (x, y_offset))
      else paste_loop fs collage_width rest (x_offset, y_offset))"

definition make_vic_collage ::
    "filesystem \<Rightarrow> int \<Rightarrow> string list \<Rightarrow> pyfloat \<Rightarrow> error + composer_result" where
  \<comment> \<open>\<open>epoch\<close> is \<^verbatim>\<open>int(time.time())\<close>. Creating the canvas, making the output
      directory and saving are taken to succeed. The report's file size depends on the
      JPEG encoder and is left out.\<close>
  "make_vic_collage fs epoch image_files collage_scale =
     (if image_files = []
      then Inr \<lparr>messages = [Line ''No images to create a collage. Exiting...''], effects = []\<rparr>
      else and_then (scale_images fs collage_scale image_files) (\<lambda>(scaled_images, warnings).
        if scaled_images = []
        then Inr \<lparr>messages = warnings @ [Line ''No valid images found for collage. Exiting...''],
                  effects = []\<rparr>
        else and_then (grid_shape (length scaled_images)) (\<lambda>(num_rows, num_cols).
          let collage_width = int (py_max (map width scaled_images)) * num_cols;
              collage_height = int (py_max (map height scaled_images)) * num_rows;
              ops = paste_loop fs collage_width (zip image_files scaled_images) (0, 0);
              output_collage_path =
                os_path_join ''output'' (''vics_collage_'' @ str_int epoch @ ''.jpg'');
              pic = \<lparr>canvas_size = (collage_width, collage_height),
                     background = (0, 0, 0), drawn = ops\<rparr>
          in Inr \<lparr>messages = warnings
                     @ [Report (length image_files) collage_scale (canvas_size pic)
                          output_collage_path],
                   effects = [Make_dirs ''output'', Save_image output_collage_path pic]\<rparr>)))"

section \<open>Asset Downloader and Batch Downloader\<close>

record creator =
  api_key :: json
  contract_address :: json
  contract_abi :: json
  vic_base_url :: json

datatype http_result =
    Response nat node
      \<comment> \<open>a status, and the file the body makes when written\<close>
  | Transport_error string
      \<comment> \<open>\<^verbatim>\<open>session.get\<close> or reading the body raised\<close>

datatype write_result =
    Stored
  | Write_fails string "node option"
      \<comment> \<open>\<^verbatim>\<open>open(path, 'wb')\<close> or \<^verbatim>\<open>file.write\<close> raised an OSError with this
          message (a directory at the path, no permission, no space left); what the path
          holds afterwards, when the attempt changed it (a file opened and cut short)\<close>

datatype event =
    Resolve_owner string
  | Http_get int
  | Composer_call "string list" pyfloat

text \<open>
  The world outside the script: the configuration file and the JSON decoder, the answer
  of the chain to \<^verbatim>\<open>tokensOfOwner\<close> for a wallet (checksumming the two addresses
  included, hence the message of an exception or the list), the answer of the image
  host for a base address and a token, what writing a file at a path does, and the clock.
\<close>

record world =
  open_file :: "string \<Rightarrow> file_read"
  json_load :: "string \<Rightarrow> decoded"
  tokens_of_owner :: "creator \<Rightarrow> string \<Rightarrow> string + int list"
  http_get :: "json \<Rightarrow> int \<Rightarrow> http_result"
  disk_write :: "string \<Rightarrow> write_result"
  clock :: int

record run_state =
  files :: filesystem
  printed :: "message list"
  counter :: int
  events :: "event list"
  written :: "fs_effect list"

definition say :: "message list \<Rightarrow> run_state \<Rightarrow> run_state" where
  "say ms st = st\<lparr>printed := printed st @ ms\<rparr>"

definition full_block :: string where
  \<comment> \<open>the fill character U+2588, as its UTF-8 bytes\<close>
  "full_block = [char_of (226 :: nat), char_of (150 :: nat), char_of (136 :: nat)]"

definition update_progress_bar :: "int \<Rightarrow> run_state \<Rightarrow> error option \<times> run_state" where
  \<comment> \<open>the closure of \<^verbatim>\<open>get_the_vics\<close>; \<open>counter\<close> is its attribute\<close>
  "update_progress_bar total_vics st =
     (let st1 = st\<lparr>counter := counter st + 1\<rparr>
      in case print_progress_bar (counter st1) total_vics ''Progress:'' ''Complete'' 50 full_block of
           Inl e \<Rightarrow> (Some e, st1)
         | Inr out \<Rightarrow> (None, say out st1))"

definition download_vic ::
    "world \<Rightarrow> creator \<Rightarrow> int \<Rightarrow> (run_state \<Rightarrow> error option \<times> run_state) option \<Rightarrow> run_state \<Rightarrow> run_state" where
  \<comment> \<open>the whole body is inside \<^verbatim>\<open>try\<close>: whatever is raised, by the request, by
      writing the file or by the callback, is printed and the task ends there\<close>
  "download_vic w c token_id callback st =
     (let st0 = st\<lparr>events := events st @ [Http_get token_id]\<rparr>;
          path = os_path_join ''vics'' (png_name token_id)
      in case http_get w (vic_base_url c) token_id of
           Transport_error msg \<Rightarrow> say [Download_error token_id (ClientError msg)] st0
         | Response status body \<Rightarrow>
             (case (if status = 200
                    then (case disk_write w path of
                            Stored \<Rightarrow>
                              (None, say [Line (''Saved Vic '' @ png_name token_id)]
                                       (st0\<lparr>files := (files st0)(path \<mapsto> body)\<rparr>))
                          | Write_fails msg left \<Rightarrow>
                              (Some (WriteError msg),
                               st0\<lparr>files := (case left of
                                                None \<Rightarrow> files st0
                                              | Some cut_short \<Rightarrow> (files st0)(path \<mapsto> cut_short))\<rparr>))
                    else (None, say [Line (''Failed to get '' @ png_name token_id
                                            @ ''. Status code: '' @ str_int (int status))] st0)) of
                (Some e, st1) \<Rightarrow> say [Download_error token_id e] st1
              | (None, st1) \<Rightarrow>
                  (case callback of
                     None \<Rightarrow> st1
                   | Some cb \<Rightarrow>
                       (case cb st1 of
                          (None, st2) \<Rightarrow> st2
                        | (Some e, st2) \<Rightarrow> say [Download_error token_id e] st2))))"

definition makedirs :: "string \<Rightarrow> run_state \<Rightarrow> error + run_state" where
  \<comment> \<open>\<^verbatim>\<open>os.makedirs(d, exist_ok=True)\<close>: an existing directory is left as it is\<close>
  "makedirs d st =
     (case files st d of
        None \<Rightarrow> Inr (st\<lparr>files := (files st)(d \<mapsto> Directory)\<rparr>)
      | Some Directory \<Rightarrow> Inr st
      | Some _ \<Rightarrow> Inl FileExistsError)"

definition begin_batch :: "world \<Rightarrow> creator \<Rightarrow> string \<Rightarrow> run_state \<Rightarrow> (error + int list) \<times> run_state" where
  \<comment> \<open>\<^verbatim>\<open>get_the_vics\<close> up to the creation of the tasks: the state it returns is the one
      the downloads start in\<close>
  "begin_batch w c target_wallet_address st =
     (let st0 = st\<lparr>events := events st @ [Resolve_owner target_wallet_address]\<rparr>
      in case tokens_of_owner w c target_wallet_address of
           Inl msg \<Rightarrow> (Inl (ChainError msg), st0)
         | Inr ids \<Rightarrow>
             let token_ids = sort ids
             in (case makedirs ''vics'' st0 of
                   Inl e \<Rightarrow> (Inl e, st0)
                 | Inr st1 \<Rightarrow>
                     (case print_progress_bar 0 (int (length token_ids))
                             ''Progress:'' ''Complete'' 50 full_block of
                        Inl e \<Rightarrow> (Inl e, st1)
                      | Inr out \<Rightarrow> (Inr token_ids, (say out st1)\<lparr>counter := 0\<rparr>))))"

definition gather_downloads :: "world \<Rightarrow> creator \<Rightarrow> int list \<Rightarrow> run_state \<Rightarrow> run_state" where
  \<comment> \<open>\<^verbatim>\<open>asyncio.gather\<close> of one task per token. The tasks are run here in the order
      they were created; each writes its own file and adds one to the counter, so any
      other order of completion ends with the same files and the same counter.\<close>
  "gather_downloads w c token_ids st =
     fold (\<lambda>token_id. download_vic w c token_id
                         (Some (update_progress_bar (int (length token_ids)))))
          token_ids st"

definition get_the_vics :: "world \<Rightarrow> creator \<Rightarrow> string \<Rightarrow> run_state \<Rightarrow> (error + int list) \<times> run_state" where
  "get_the_vics w c target_wallet_address st =
     (case begin_batch w c target_wallet_address st of
        (Inl e, st1) \<Rightarrow> (Inl e, st1)
      | (Inr token_ids, st1) \<Rightarrow> (Inr token_ids, gather_downloads w c token_ids st1))"

section \<open>Orchestrator\<close>

record args =
  target_wallet_addresses :: "string list"
  collage_scale :: pyfloat

definition float_literal :: "rat \<Rightarrow> pyfloat" where
  \<comment> \<open>a decimal literal of the source denotes the nearest double\<close>
  "float_literal r = round_double r"

definition default_collage_scale :: pyfloat where
  "default_collage_scale = float_literal (1 / 10)"

definition scale_accepted :: "pyfloat \<Rightarrow> bool" where
  \<comment> \<open>\<^verbatim>\<open>0.010 <= args.collage_scale <= 1.0\<close>\<close>
  "scale_accepted s = (float_le (float_literal (1 / 100)) s \<and> float_le s (float_literal 1))"

fun process_wallets ::
    "world \<Rightarrow> creator \<Rightarrow> string list \<Rightarrow> string list \<Rightarrow> run_state \<Rightarrow> (error + string list) \<times> run_state" where
  \<comment> \<open>the loop over the wallets; the second list is \<^verbatim>\<open>all_image_files\<close> so far\<close>
  "process_wallets w c [] all_image_files st = (Inr all_image_files, st)"
| "process_wallets w c (wallet_address # rest) all_image_files st =
     (case get_the_vics w c wallet_address (say [Line (''Processing wallet: '' @ wallet_address)] st) of
        (Inl e, st1) \<Rightarrow> (Inl e, st1)
      | (Inr token_ids, st1) \<Rightarrow>
          process_wallets w c rest (all_image_files @ map png_name token_ids) st1)"

definition make_creator :: "json \<Rightarrow> error + creator" where
  \<comment> \<open>the four \<^verbatim>\<open>config.get\<close> calls and the constructor\<close>
  "make_creator config =
     and_then (config_get config ''infura_api_key'') (\<lambda>k.
     and_then (config_get config ''contract_address'') (\<lambda>a.
     and_then (config_get config ''contract_abi'') (\<lambda>abi.
     and_then (config_get config ''vic_base_url'') (\<lambda>u.
       Inr \<lparr>api_key = k, contract_address = a, contract_abi = abi, vic_base_url = u\<rparr>))))"

datatype parse_result =
    Namespace args
  | Rejected
      \<comment> \<open>the parser's own error (no wallet, a scale that \<^verbatim>\<open>float\<close> does not convert,
          an option it does not know): usage and message on stderr, exit status 2\<close>
  | Help
      \<comment> \<open>\<^verbatim>\<open>-h\<close>: the help text, exit status 0\<close>

definition main_async_parsed ::
    "world \<Rightarrow> parse_result \<Rightarrow> run_state \<Rightarrow> error option \<times> run_state" where
  \<comment> \<open>\<open>parsed\<close> is what \<^verbatim>\<open>parser.parse_args()\<close> does with the command line; the
      parser is built and called once the creator is made. \<^verbatim>\<open>parser.error\<close> is the
      parser's own way out: a usage error. The banner, the help text and the line with the
      execution time are not kept in \<open>printed\<close>.\<close>
  "main_async_parsed w parsed st =
     (case load_configuration (open_file w) (json_load w) ''config.json'' of
        (out, loaded) \<Rightarrow>
          let st1 = say out st
          in (case and_then loaded make_creator of
                Inl e \<Rightarrow> (Some e, st1)
              | Inr c \<Rightarrow>
                  (case parsed of
                     Rejected \<Rightarrow> (Some UsageError, st1)
                   | Help \<Rightarrow> (Some HelpExit, st1)
                   | Namespace a \<Rightarrow>
                       if \<not> scale_accepted (collage_scale a) then (Some UsageError, st1)
                       else (case process_wallets w c (target_wallet_addresses a) [] st1 of
                               (Inl e, st2) \<Rightarrow> (Some e, st2)
                             | (Inr all_image_files, st2) \<Rightarrow>
                                 if all_image_files \<noteq> []
                                 then let st3 = st2\<lparr>events := events st2
                                                 @ [Composer_call all_image_files
                                                      (collage_scale a)]\<rparr>
                                      in (case make_vic_collage (files st3) (clock w)
                                                 all_image_files (collage_scale a) of
                                            Inl e \<Rightarrow> (Some e, st3)
                                          | Inr r \<Rightarrow>
                                              (None, (say (messages r) st3)
                                                       \<lparr>written := written st3 @ effects r\<rparr>))
                                 else (None, say [Line ''No images to create a collage.''] st2)))))"

definition main_async :: "world \<Rightarrow> args \<Rightarrow> run_state \<Rightarrow> error option \<times> run_state" where
  \<comment> \<open>\<^verbatim>\<open>main_async\<close> on a command line that the parser accepts: \<open>args\<close> is what
      \<^verbatim>\<open>parser.parse_args()\<close> returned\<close>
  "main_async w a st = main_async_parsed w (Namespace a) st"

definition within_scale_bounds :: "pyfloat \<Rightarrow> bool" where
  \<comment> \<open>the closed interval from the double \<^verbatim>\<open>0.010\<close> to \<^verbatim>\<open>1.0\<close>\<close>
  "within_scale_bounds s =
     (case s of Finite r \<Rightarrow> 5764607523034235 / 2 ^ 59 \<le> r \<and> r \<le> 1 | _ \<Rightarrow> False)"


definition inside :: "string \<Rightarrow> string \<Rightarrow> bool" where
  \<comment> \<open>the path \<open>p\<close> is the directory \<open>d\<close> or lies below it\<close>
  "inside d p = (p = d \<or> take (length d + 1) p = d @ ''/'')"

definition rmtree :: "string \<Rightarrow> run_state \<Rightarrow> run_state" where
  \<comment> \<open>\<^verbatim>\<open>shutil.rmtree(d, ignore_errors=True)\<close>: a directory goes with all that is
      below it. At a path that holds a file the call raises, the exception is ignored and
      the file stays. At a missing path it raises and is ignored as well; what lies below
      is cleared, which is nothing when every file has its directory.\<close>
  "rmtree d st =
     (case files st d of
        Some Directory \<Rightarrow> st\<lparr>files := (\<lambda>p. if inside d p then None else files st p)\<rparr>
      | None \<Rightarrow> st\<lparr>files := (\<lambda>p. if inside d p then None else files st p)\<rparr>
      | Some _ \<Rightarrow> st)"

definition os_mkdir :: "string \<Rightarrow> run_state \<Rightarrow> error + run_state" where
  "os_mkdir d st =
     (if files st d \<noteq> None then Inl FileExistsError
      else Inr (st\<lparr>files := (files st)(d \<mapsto> Directory)\<rparr>))"

definition script_main :: "world \<Rightarrow> args \<Rightarrow> run_state \<Rightarrow> error option \<times> run_state" where
  \<comment> \<open>the \<^verbatim>\<open>__main__\<close> block: an exception of \<^verbatim>\<open>main_async\<close> ends the process
      before the two lines after it\<close>
  "script_main w a st =
     (case main_async w a st of
        (Some e, st1) \<Rightarrow> (Some e, st1)
      | (None, st1) \<Rightarrow>
          (case os_mkdir ''vics'' (rmtree ''vics'' st1) of
             Inl e \<Rightarrow> (Some e, rmtree ''vics'' st1)
           | Inr st2 \<Rightarrow> (None, st2)))"

definition load_creator :: "world \<Rightarrow> error + creator" where
  \<comment> \<open>the creator \<^verbatim>\<open>main_async\<close> builds from \<^verbatim>\<open>config.json\<close>, or the exception
      that ends the run before the arguments are looked at\<close>
  "load_creator w =
     and_then (snd (load_configuration (open_file w) (json_load w) ''config.json'')) make_creator"


definition after_config :: "world \<Rightarrow> run_state \<Rightarrow> run_state" where
  \<comment> \<open>the state of \<^verbatim>\<open>main_async\<close> once the configuration is loaded\<close>
  "after_config w st = say (fst (load_configuration (open_file w) (json_load w) ''config.json'')) st"

definition called_back :: "world \<Rightarrow> creator \<Rightarrow> int \<Rightarrow> bool" where
  \<comment> \<open>the task for this token gets to its callback: the request got an HTTP response and,
      when the status was 200, the body was written\<close>
  "called_back w c token_id =
     (case http_get w (vic_base_url c) token_id of
        Response status _ \<Rightarrow>
          (if status = 200
           then disk_write w (os_path_join ''vics'' (png_name token_id)) = Stored
           else True)
      | Transport_error _ \<Rightarrow> False)"

definition saved :: "world \<Rightarrow> creator \<Rightarrow> int \<Rightarrow> bool" where
  \<comment> \<open>the request for this token's image was answered with status 200\<close>
  "saved w c token_id =
     (case http_get w (vic_base_url c) token_id of
        Response status _ \<Rightarrow> status = 200
      | Transport_error _ \<Rightarrow> False)"

section \<open>The layout in the words of the specification\<close>

fun cursor_positions :: "int \<Rightarrow> image list \<Rightarrow> int \<times> int \<Rightarrow> (int \<times> int) list" where
  \<comment> \<open>the cursor as the specification words it: it starts where it is given, moves right
      by the width of each image, and once it has reached the canvas width goes back to
      the left edge and down by the height of the image just pasted\<close>
  "cursor_positions canvas_width [] (x, y) = []"
| "cursor_positions canvas_width (img # rest) (x, y) =
     (x, y) # cursor_positions canvas_width rest
                (if canvas_width \<le> x + int (width img) then (0, y + int (height img))
                 else (x + int (width img), y))"

definition placed :: "(string \<times> image) list \<Rightarrow> (int \<times> int) list \<Rightarrow> draw_op list" where
  \<comment> \<open>each image pasted at its position, and its label drawn at the same position\<close>
  "placed named_images positions =
     concat (map (\<lambda>((image_file, img), pos). [Paste img pos, Text pos (splitext_root image_file)])
                 (zip named_images positions))"



section \<open>Well-formed JSON, in the words of RFC 8259\<close>











section \<open>Concrete runs\<close>

text \<open>
  Inputs on which the theorems below are evaluated: a state with nothing on disk, a world
  with no configuration file in which every wallet owns the given tokens and the image
  host gives the given answer, and pictures of a given size.
\<close>

definition fresh_state :: run_state where
  "fresh_state = \<lparr>files = Map.empty, printed = [], counter = 0, events = [], written = []\<rparr>"

definition sample_world :: "int list \<Rightarrow> (int \<Rightarrow> http_result) \<Rightarrow> world" where
  "sample_world ids host =
     \<lparr>open_file = (\<lambda>_. File_not_found), json_load = (\<lambda>_. JSONDecodeError),
      tokens_of_owner = (\<lambda>_ _. Inr ids), http_get = (\<lambda>_. host),
      disk_write = (\<lambda>_. Stored), clock = 1700000000\<rparr>"

definition sample_creator :: creator where
  "sample_creator = \<lparr>api_key = JNull, contract_address = JNull, contract_abi = JNull,
                      vic_base_url = JNull\<rparr>"

definition list_config_world :: world where
  \<comment> \<open>the same world with a \<^verbatim>\<open>config.json\<close> that holds the list \<^verbatim>\<open>[1]\<close>\<close>
  "list_config_world =
     (sample_world [1] (\<lambda>_. Response 200 Other_file))
       \<lparr>open_file := (\<lambda>_. File_text ''[1]''),
        json_load := (\<lambda>t. if t = ''[1]'' then Decoded (JArr [JInt 1]) else JSONDecodeError)\<rparr>"

definition sample_args :: "pyfloat \<Rightarrow> args" where
  "sample_args s = \<lparr>target_wallet_addresses = [''0xabc''], collage_scale = s\<rparr>"

definition picture :: "string \<Rightarrow> nat \<Rightarrow> nat \<Rightarrow> node" where
  "picture name w h = Image_file \<lparr>width = w, height = h, origin = name\<rparr>"

definition stale_state :: run_state where
  \<comment> \<open>a working directory that an earlier run left with a file in it\<close>
  "stale_state =
     fresh_state\<lparr>files := [''vics'' \<mapsto> Directory, ''vics/9.png'' \<mapsto> picture ''old'' 10 10]\<rparr>"

text \<open>Four pictures of one width, listed out of order: a grid of two by two.\<close>

definition four_pictures :: filesystem where
  "four_pictures =
     [''vics'' \<mapsto> Directory,
      ''vics/1.png'' \<mapsto> picture ''one'' 200 100,
      ''vics/2.png'' \<mapsto> picture ''two'' 200 100,
      ''vics/3.png'' \<mapsto> picture ''three'' 200 300,
      ''vics/4.png'' \<mapsto> picture ''four'' 200 100]"

definition four_scaled :: "image list" where
  "four_scaled =
     [\<lparr>width = 20, height = 30, origin = ''three''\<rparr>,
      \<lparr>width = 20, height = 10, origin = ''one''\<rparr>,
      \<lparr>width = 20, height = 10, origin = ''four''\<rparr>,
      \<lparr>width = 20, height = 10, origin = ''two''\<rparr>]"

definition four_collage :: composer_result where
  "four_collage =
     \<lparr>messages = [Report 4 default_collage_scale (40, 60) ''output/vics_collage_1700000000.jpg''],
      effects =
        [Make_dirs ''output'',
         Save_image ''output/vics_collage_1700000000.jpg''
           \<lparr>canvas_size = (40, 60), background = (0, 0, 0),
            drawn = [Paste \<lparr>width = 20, height = 30, origin = ''three''\<rparr> (0, 0),
                     Text (0, 0) ''3'',
                     Paste \<lparr>width = 20, height = 10, origin = ''one''\<rparr> (20, 0),
                     Text (20, 0) ''1'',
                     Paste \<lparr>width = 20, height = 10, origin = ''four''\<rparr> (0, 10),
                     Text (0, 10) ''4'',
                     Paste \<lparr>width = 20, height = 10, origin = ''two''\<rparr> (20, 10),
                     Text (20, 10) ''2'']\<rparr>]\<rparr>"



section \<open>Facts about the numbers\<close>

text \<open>
  What \<open>round_double\<close> does to a number whose binary exponent is known, and what follows
  for the three float computations of the composer: converting an int below \<open>2^53\<close> is
  exact, the integer part of the rounded root of \<open>n\<close> is the integer root, and the
  ceiling of the rounded quotient of two ints is the ceiling of the quotient.
\<close>

lemma pow2_powi: "pow2 k = 2 powi k"
  by (simp add: pow2_def power_int_def field_simps)

lemma pow2_pos [simp]: "0 < pow2 k"
  by (simp add: pow2_powi)

lemma pow2_add: "pow2 (j + k) = pow2 j * pow2 k"
  by (simp add: pow2_powi power_int_add)

lemma pow2_mono: "j \<le> k \<Longrightarrow> pow2 j \<le> pow2 k"
  by (simp add: pow2_powi power_int_increasing)

lemma pow2_nat: "0 \<le> k \<Longrightarrow> pow2 k = 2 ^ nat k"
  by (simp add: pow2_def)

lemma ilog2_bounds:
  assumes "0 < a"
  shows "pow2 (ilog2 a) \<le> a \<and> a < pow2 (ilog2 a + 1)"
proof -
  obtain p q where pq: "quotient_of a = (p, q)"
    by (cases "quotient_of a")
  then have q: "0 < q" and a: "a = of_int p / of_int q"
    by (auto dest: quotient_of_denom_pos quotient_of_div)
  with assms have p: "0 < p"
    by (simp add: zero_less_divide_iff)
  define k where "k = bitlen p - bitlen q"
  have bp1: "1 \<le> bitlen p" and bq1: "1 \<le> bitlen q"
    using p q bitlen_eq_zero_iff [of p] bitlen_eq_zero_iff [of q] bitlen_nonneg [of p]
      bitlen_nonneg [of q] by linarith+
  have "(of_int (2 ^ nat (bitlen p - 1)) :: rat) \<le> of_int p"
    and "(of_int p :: rat) < of_int (2 ^ nat (bitlen p))"
    using bitlen_bounds [OF p] by (simp_all only: of_int_le_iff of_int_less_iff)
  then have plo: "pow2 (bitlen p - 1) \<le> of_int p" and phi: "of_int p < pow2 (bitlen p)"
    using bp1 by (simp_all add: pow2_nat)
  have "(of_int (2 ^ nat (bitlen q - 1)) :: rat) \<le> of_int q"
    and "(of_int q :: rat) < of_int (2 ^ nat (bitlen q))"
    using bitlen_bounds [OF q] by (simp_all only: of_int_le_iff of_int_less_iff)
  then have qlo: "pow2 (bitlen q - 1) \<le> of_int q" and qhi: "of_int q < pow2 (bitlen q)"
    using bq1 by (simp_all add: pow2_nat)
  have qpos: "(0::rat) < of_int q" using q by simp
  have "pow2 (k - 1) * of_int q < pow2 (k - 1) * pow2 (bitlen q)"
    using qhi by simp
  also have "\<dots> = pow2 (bitlen p - 1)"
    by (simp add: k_def flip: pow2_add)
  also have "\<dots> \<le> of_int p" by (rule plo)
  finally have lo: "pow2 (k - 1) < a"
    using qpos by (simp add: a pos_less_divide_eq)
  have "of_int p < pow2 (bitlen p)" by (rule phi)
  also have "\<dots> = pow2 (k + 1) * pow2 (bitlen q - 1)"
    by (simp add: k_def flip: pow2_add)
  also have "\<dots> \<le> pow2 (k + 1) * of_int q"
    using qlo by simp
  finally have hi: "a < pow2 (k + 1)"
    using qpos by (simp add: a pos_divide_less_eq)
  show ?thesis
  proof (cases "pow2 k \<le> a")
    case True
    with pq hi show ?thesis by (simp add: ilog2_def k_def Let_def)
  next
    case False
    with pq lo show ?thesis by (simp add: ilog2_def k_def Let_def)
  qed
qed

lemma ilog2_unique:
  assumes "pow2 e \<le> a" and "a < pow2 (e + 1)"
  shows "ilog2 a = e"
proof -
  have "0 < a" using assms(1) pow2_pos [of e] by linarith
  from ilog2_bounds [OF this] have b: "pow2 (ilog2 a) \<le> a" "a < pow2 (ilog2 a + 1)"
    by auto
  have "\<not> ilog2 a < e"
  proof
    assume "ilog2 a < e"
    then have "pow2 (ilog2 a + 1) \<le> pow2 e" by (intro pow2_mono) simp
    with b(2) assms(1) show False by linarith
  qed
  moreover have "\<not> e < ilog2 a"
  proof
    assume "e < ilog2 a"
    then have "pow2 (e + 1) \<le> pow2 (ilog2 a)" by (intro pow2_mono) simp
    with b(1) assms(2) show False by linarith
  qed
  ultimately show ?thesis by linarith
qed

lemma round_half_even_upper: "of_int (round_half_even r) \<le> r + 1 / 2"
  unfolding round_half_even_def Let_def
  by (auto simp: not_less) linarith+

lemma round_half_even_lower: "r - 1 / 2 \<le> of_int (round_half_even r)"
  unfolding round_half_even_def Let_def
  by (auto simp: not_less) linarith+

lemma round_half_even_ge_int:
  assumes "of_int m \<le> r"
  shows "m \<le> round_half_even r"
proof -
  from assms have "m \<le> \<lfloor>r\<rfloor>" by (simp add: le_floor_iff)
  moreover have "\<lfloor>r\<rfloor> \<le> round_half_even r"
    by (simp add: round_half_even_def Let_def)
  ultimately show ?thesis by linarith
qed

lemma round_half_even_le_int:
  assumes "r \<le> of_int m"
  shows "round_half_even r \<le> m"
proof (cases "r = of_int m")
  case True
  then show ?thesis by (simp add: round_half_even_def)
next
  case False
  with assms have "r < of_int m" by simp
  then have "\<lfloor>r\<rfloor> < m" by (simp add: floor_less_iff)
  moreover have "round_half_even r \<le> \<lfloor>r\<rfloor> + 1"
    by (simp add: round_half_even_def Let_def)
  ultimately show ?thesis by linarith
qed


lemma round_double_normal:
  assumes "pow2 e \<le> x" and "x < pow2 (e + 1)" and "- 1022 \<le> e"
  shows "round_double x =
           (let r = of_int (round_half_even (x / pow2 (e - 52))) * pow2 (e - 52)
            in if pow2 1024 \<le> r then PosInf else Finite r)"
proof -
  have x: "0 < x" using assms(1) pow2_pos [of e] by linarith
  have "ilog2 \<bar>x\<bar> = e" using x assms by (simp add: ilog2_unique)
  with x assms(3) show ?thesis
    by (simp add: round_double_def Let_def max_def)
qed


text \<open>Rounding a number between 1 and \<open>2^53\<close>.\<close>

lemma round_double_mid:
  assumes "1 \<le> x" and "x < 2 ^ 53"
  shows "\<exists>r. round_double x = Finite r
            \<and> (\<forall>k. of_int k \<le> x \<longrightarrow> of_int k \<le> r)
            \<and> (\<forall>k. x \<le> of_int k \<longrightarrow> r \<le> of_int k)
            \<and> \<bar>r - x\<bar> \<le> x / 2 ^ 53"
proof -
  define e where "e = ilog2 x"
  have x: "0 < x" using assms(1) by linarith
  from ilog2_bounds [OF x] have b: "pow2 e \<le> x" "x < pow2 (e + 1)"
    by (auto simp: e_def)
  have e0: "0 \<le> e"
  proof (rule ccontr)
    assume "\<not> 0 \<le> e"
    then have "pow2 (e + 1) \<le> pow2 0" by (intro pow2_mono) simp
    with b(2) assms(1) show False by (simp add: pow2_def)
  qed
  have e52: "e \<le> 52"
  proof (rule ccontr)
    assume "\<not> e \<le> 52"
    then have "pow2 53 \<le> pow2 e" by (intro pow2_mono) simp
    with b(1) assms(2) show False by (simp add: pow2_def)
  qed
  define N :: int where "N = 2 ^ nat (52 - e)"
  have N: "0 < N" by (simp add: N_def)
  have q: "pow2 (e - 52) = 1 / of_int N"
    using e52 by (simp add: pow2_def N_def)
  define R where "R = round_half_even (x * of_int N)"
  define r :: rat where "r = of_int R / of_int N"
  have up: "of_int R \<le> x * of_int N + 1 / 2" and lo: "x * of_int N - 1 / 2 \<le> of_int R"
    by (simp_all add: R_def round_half_even_upper round_half_even_lower)
  have Npos: "(0::rat) < of_int N" using N by simp
  have N1: "(1::rat) \<le> of_int N"
  proof -
    from N have "1 \<le> N" by simp
    then have "(of_int 1 :: rat) \<le> of_int N" by (simp only: of_int_le_iff)
    then show ?thesis by simp
  qed
  have r_up: "r \<le> x + 1 / 2"
  proof -
    have "r \<le> (x * of_int N + 1 / 2) / of_int N"
      unfolding r_def using up Npos by (simp add: divide_right_mono)
    also have "\<dots> = x + (1 / 2) / of_int N" using Npos by (simp add: field_simps)
    also have "\<dots> \<le> x + 1 / 2" using N1 Npos by (simp add: field_simps)
    finally show ?thesis .
  qed
  have "pow2 54 \<le> pow2 1024" by (intro pow2_mono) simp
  then have big: "(2::rat) ^ 54 \<le> pow2 1024" by (simp add: pow2_def)
  have "r < pow2 1024" using r_up assms(2) big by simp
  then have rd: "round_double x = Finite r"
    using round_double_normal [OF b] e0 by (simp add: Let_def q r_def R_def)
  have ge: "of_int k \<le> r" if "of_int k \<le> x" for k
  proof -
    from that Npos have "of_int (k * N) \<le> x * of_int N" by simp
    then have "k * N \<le> R" unfolding R_def by (rule round_half_even_ge_int)
    then have "(of_int (k * N) :: rat) \<le> of_int R" by (simp only: of_int_le_iff)
    then show ?thesis using Npos by (simp add: r_def pos_le_divide_eq)
  qed
  have le: "r \<le> of_int k" if "x \<le> of_int k" for k
  proof -
    from that Npos have "x * of_int N \<le> of_int (k * N)" by simp
    then have "R \<le> k * N" unfolding R_def by (rule round_half_even_le_int)
    then have "(of_int R :: rat) \<le> of_int (k * N)" by (simp only: of_int_le_iff)
    then show ?thesis using Npos by (simp add: r_def pos_divide_le_eq)
  qed
  have err: "\<bar>r - x\<bar> \<le> x / 2 ^ 53"
  proof -
    have A: "\<bar>of_int R - x * of_int N\<bar> \<le> 1 / 2" using up lo by linarith
    have N0: "(0::rat) \<le> of_int N" using Npos by linarith
    have "r - x = (of_int R - x * of_int N) / of_int N"
      using Npos by (simp add: r_def field_simps)
    then have "\<bar>r - x\<bar> = \<bar>of_int R - x * of_int N\<bar> / \<bar>of_int N\<bar>"
      by (simp only: abs_divide)
    also have "\<dots> = \<bar>of_int R - x * of_int N\<bar> / of_int N"
      using N0 by (simp only: abs_of_nonneg)
    also have "\<dots> \<le> (1 / 2) / of_int N"
      by (rule divide_right_mono [OF A N0])
    also have "(1 / 2) / of_int N = pow2 e / 2 ^ 53"
    proof -
      have "pow2 e = pow2 (e - 52) * pow2 52" by (simp flip: pow2_add)
      moreover have "pow2 52 = 2 ^ 52" by (simp add: pow2_def)
      ultimately have "pow2 e = (1 / of_int N) * 2 ^ 52" by (simp only: q)
      then show ?thesis by simp
    qed
    also have "\<dots> \<le> x / 2 ^ 53" using b(1) by (simp add: divide_right_mono)
    finally show ?thesis .
  qed
  from rd ge le err show ?thesis by blast
qed

lemma isqrt_spec:
  "0 \<le> n \<Longrightarrow> 0 \<le> isqrt n \<and> isqrt n * isqrt n \<le> n \<and> n < (isqrt n + 1) * (isqrt n + 1)"
proof (induction n rule: isqrt.induct)
  case (1 n)
  show ?case
  proof (cases "n < 4")
    case True
    with "1.prems" show ?thesis
      by (subst (1 2 3 4 5) isqrt.simps) auto
  next
    case False
    define r where "r = isqrt (n div 4)"
    from False "1.prems" have "0 \<le> n div 4" by simp
    from "1.IH" [OF False this]
    have r: "0 \<le> r" "r * r \<le> n div 4" "n div 4 < (r + 1) * (r + 1)"
      by (simp_all add: r_def)
    have d: "4 * (n div 4) \<le> n" "n < 4 * (n div 4) + 4" by presburger+
    have lo: "(2 * r) * (2 * r) \<le> n"
    proof -
      have "(2 * r) * (2 * r) = 4 * (r * r)" by simp
      with r(2) d(1) show ?thesis by linarith
    qed
    have hi: "n < (2 * r + 2) * (2 * r + 2)"
    proof -
      have "(2 * r + 2) * (2 * r + 2) = 4 * ((r + 1) * (r + 1))" by (simp add: algebra_simps)
      with r(3) d(2) show ?thesis by linarith
    qed
    have eq: "isqrt n = (if (2 * r + 1) * (2 * r + 1) \<le> n then 2 * r + 1 else 2 * r)"
      using False by (subst isqrt.simps) (simp add: Let_def r_def)
    show ?thesis
    proof (cases "(2 * r + 1) * (2 * r + 1) \<le> n")
      case True
      with eq have "isqrt n = 2 * r + 1" by simp
      with True hi r(1) show ?thesis by (simp add: algebra_simps)
    next
      case False
      with eq have "isqrt n = 2 * r" by simp
      with False lo r(1) show ?thesis by (simp add: algebra_simps)
    qed
  qed
qed

lemma float_of_int_exact:
  assumes "0 \<le> i" and "i < 2 ^ 53"
  shows "float_of_int i = Inr (Finite (of_int i))"
proof (cases "i = 0")
  case True
  then show ?thesis by (simp add: float_of_int_def round_double_def)
next
  case False
  with assms have "(1::rat) \<le> of_int i" by simp
  moreover have "(of_int i :: rat) < of_int (2 ^ 53)"
    using assms(2) by (simp only: of_int_less_iff)
  then have "(of_int i :: rat) < 2 ^ 53" by simp
  ultimately obtain r where r: "round_double (of_int i) = Finite r"
      "\<forall>k. (of_int k :: rat) \<le> of_int i \<longrightarrow> of_int k \<le> r"
      "\<forall>k. (of_int i :: rat) \<le> of_int k \<longrightarrow> r \<le> of_int k"
    using round_double_mid [of "of_int i"] by blast
  from r(2) r(3) have "r = of_int i" by (meson order_refl antisym)
  with r(1) show ?thesis by (simp add: float_of_int_def)
qed

lemma square_less_imp_less:
  fixes a b :: "'a :: linordered_idom"
  assumes "a * a < b * b" and "0 \<le> b"
  shows "a < b"
  using assms power2_less_imp_less [of a b] by (simp add: power2_eq_square)

lemma math_sqrt_floor:
  assumes "1 \<le> n" and "n < 2 ^ 50"
  shows "\<exists>r. math_sqrt n = Inr (Finite r) \<and> of_int (isqrt n) \<le> r \<and> r < of_int (isqrt n) + 1"
proof -
  define R where "R = isqrt n"
  have Rs: "0 \<le> R" "R * R \<le> n" "n < (R + 1) * (R + 1)"
    using isqrt_spec [of n] assms(1) by (simp_all add: R_def)
  have R1: "1 \<le> R"
  proof (rule ccontr)
    assume "\<not> 1 \<le> R"
    with Rs(1) have "R = 0" by simp
    with Rs(3) assms(1) show False by simp
  qed
  have R25: "R + 1 \<le> 2 ^ 25"
  proof (rule ccontr)
    assume "\<not> R + 1 \<le> 2 ^ 25"
    then have "(2::int) ^ 25 \<le> R" by simp
    then have "(2::int) ^ 25 * 2 ^ 25 \<le> R * R" by (intro mult_mono) simp_all
    with Rs(2) assms(2) show False by simp
  qed
  define T where "T = n * 4 ^ 53"
  define t where "t = isqrt T"
  have T0: "0 \<le> T" using assms(1) by (simp add: T_def)
  have ts: "0 \<le> t" "t * t \<le> T" "T < (t + 1) * (t + 1)"
    using isqrt_spec [OF T0] by (simp_all add: t_def)
  have n53: "n < 2 ^ 53" using assms(2) by simp
  have fl: "float_of_int n = Inr (Finite (of_int n))"
    using assms(1) n53 by (intro float_of_int_exact) simp_all
  define y :: rat where
    "y = (if t * t = T then of_int t / 2 ^ 53 else of_int (2 * t + 1) / 2 ^ 54)"
  have ms: "math_sqrt n = Inr (round_double y)"
    using assms(1) by (simp add: math_sqrt_def fl Let_def y_def t_def T_def)
  define u :: rat where "u = of_int t / 2 ^ 53"
  have uy: "u \<le> y" "y \<le> u + 1 / 2 ^ 54"
    by (simp_all add: y_def u_def field_simps)
  have Rt: "R * 2 ^ 53 \<le> t"
  proof -
    have "(R * 2 ^ 53) * (R * 2 ^ 53) = (R * R) * 4 ^ 53" by simp
    also have "\<dots> \<le> T" unfolding T_def using Rs(2) by (intro mult_right_mono) simp_all
    finally have "(R * 2 ^ 53) * (R * 2 ^ 53) < (t + 1) * (t + 1)" using ts(3) by linarith
    then have "R * 2 ^ 53 < t + 1"
    proof (rule square_less_imp_less)
      show "0 \<le> t + 1" using ts(1) by linarith
    qed
    then show ?thesis by simp
  qed
  have Ru: "of_int R \<le> u"
  proof -
    have "(of_int (R * 2 ^ 53) :: rat) \<le> of_int t" using Rt by (simp only: of_int_le_iff)
    then show ?thesis by (simp add: u_def field_simps)
  qed
  have usq: "u * u \<le> of_int n"
  proof -
    have "(of_int (t * t) :: rat) \<le> of_int T" using ts(2) by (simp only: of_int_le_iff)
    then have "(of_int t * of_int t :: rat) \<le> of_int n * 4 ^ 53" by (simp add: T_def)
    moreover have "u * u = (of_int t * of_int t) / 4 ^ 53" by (simp add: u_def)
    ultimately show ?thesis by (simp add: field_simps)
  qed
  define c :: rat where "c = of_int (R + 1)"
  have c1: "1 \<le> c" using Rs(1) by (simp add: c_def)
  have c25: "c \<le> 2 ^ 25"
  proof -
    have "(of_int (R + 1) :: rat) \<le> of_int (2 ^ 25)" using R25 by (simp only: of_int_le_iff)
    then show ?thesis by (simp add: c_def)
  qed
  have nc: "of_int n \<le> c * c - 1"
  proof -
    from Rs(3) have "n \<le> (R + 1) * (R + 1) - 1" by simp
    then have "(of_int n :: rat) \<le> of_int ((R + 1) * (R + 1) - 1)" by (simp only: of_int_le_iff)
    then show ?thesis by (simp add: c_def)
  qed
  define U where "U = c - 1 / (2 * c)"
  have cpos: "0 < c" using c1 by linarith
  have U2: "U * U = c * c - 1 + 1 / (4 * c * c)"
    using cpos by (simp add: U_def field_simps)
  have "0 < 1 / (4 * c * c)" using cpos by simp
  with U2 usq nc have "u * u < U * U" by linarith
  moreover have Upos: "0 \<le> U"
  proof -
    have "1 / (2 * c) \<le> 1 / 2" using c1 cpos by (simp add: field_simps)
    with c1 show ?thesis unfolding U_def by linarith
  qed
  ultimately have uU: "u < U" by (rule square_less_imp_less)
  have y1: "1 \<le> y" using R1 Ru uy(1) by (simp add: order_trans [of 1 "of_int R"])
  have key: "1 / 2 ^ 54 + c / 2 ^ 53 \<le> 1 / (2 * c)"
  proof -
    have "c * c \<le> 2 ^ 25 * 2 ^ 25" using c25 cpos by (intro mult_mono) simp_all
    with c25 have "c * (1 / 2 ^ 54 + c / 2 ^ 53) \<le> 1 / 2"
      by (simp add: field_simps)
    then have "(1 / 2 ^ 54 + c / 2 ^ 53) \<le> (1 / 2) / c"
      using cpos by (simp add: pos_le_divide_eq mult.commute)
    then show ?thesis by simp
  qed
  have "0 < 1 / (2 * c)" using cpos by simp
  then have Uc: "U < c" by (simp add: U_def)
  have "0 < c / 2 ^ 53" using cpos by simp
  with key have "1 / 2 ^ 54 < 1 / (2 * c)" by linarith
  moreover have "U + 1 / (2 * c) = c" by (simp add: U_def)
  ultimately have yc: "y < c" using uy(2) uU by linarith
  have "y < 2 ^ 53" using yc c25 by (simp add: order_less_le_trans [of y c])
  with y1 obtain r where r: "round_double y = Finite r"
      "\<forall>k. of_int k \<le> y \<longrightarrow> of_int k \<le> r"
      "\<bar>r - y\<bar> \<le> y / 2 ^ 53"
    using round_double_mid [of y] by blast
  have lo: "of_int R \<le> r" using r(2) Ru uy(1) by (simp add: order_trans [of _ u])
  have "r \<le> y + y / 2 ^ 53" using r(3) by linarith
  also have "\<dots> < y + c / 2 ^ 53" using yc by (simp add: divide_strict_right_mono)
  also have "\<dots> < U + 1 / 2 ^ 54 + c / 2 ^ 53" using uy(2) uU by linarith
  also have "\<dots> \<le> U + 1 / (2 * c)" using key by linarith
  also have "\<dots> = c" by (simp add: U_def)
  finally have hi: "r < of_int R + 1" by (simp add: c_def)
  from ms r(1) lo hi show ?thesis by (simp add: R_def)
qed

lemma int_truediv_ceiling:
  assumes "1 \<le> R" and "R \<le> n" and "n < 2 ^ 53"
  shows "\<exists>r. int_truediv n R = Inr (Finite r) \<and> \<lceil>r\<rceil> = \<lceil>(of_int n :: rat) / of_int R\<rceil>"
proof -
  define x :: rat where "x = of_int n / of_int R"
  define C where "C = \<lceil>x\<rceil>"
  have Rpos: "(0::rat) < of_int R" using assms(1) by simp
  have R1: "(1::rat) \<le> of_int R" using assms(1) by simp
  have nR: "(of_int R :: rat) \<le> of_int n" using assms(2) by (simp only: of_int_le_iff)
  have n53: "(of_int n :: rat) < 2 ^ 53"
  proof -
    have "(of_int n :: rat) < of_int (2 ^ 53)" using assms(3) by (simp only: of_int_less_iff)
    then show ?thesis by simp
  qed
  have x1: "1 \<le> x" using nR Rpos by (simp add: x_def pos_le_divide_eq)
  have xn: "x \<le> of_int n"
  proof -
    have n0: "(0::rat) \<le> of_int n" using nR Rpos by linarith
    have "(of_int n :: rat) * 1 \<le> of_int n * of_int R"
      by (rule mult_left_mono [OF R1 n0])
    then show ?thesis using Rpos by (simp add: x_def pos_divide_le_eq)
  qed
  have x53: "x < 2 ^ 53" using xn n53 by linarith
  from x1 x53 obtain r where r: "round_double x = Finite r"
      "\<forall>k. x \<le> of_int k \<longrightarrow> r \<le> of_int k"
      "\<bar>r - x\<bar> \<le> x / 2 ^ 53"
    using round_double_mid [of x] by blast
  have up: "r \<le> of_int C" using r(2) by (simp add: C_def)
  have "of_int C - 1 < x" unfolding C_def using ceiling_correct [of x] by linarith
  then have "of_int (C - 1) * of_int R < (of_int n :: rat)"
    using Rpos by (simp add: x_def pos_less_divide_eq)
  then have "(of_int ((C - 1) * R) :: rat) < of_int n" by simp
  then have "(C - 1) * R < n" by (simp only: of_int_less_iff)
  then have "(C - 1) * R + 1 \<le> n" by simp
  then have "(of_int ((C - 1) * R + 1) :: rat) \<le> of_int n" by (simp only: of_int_le_iff)
  then have "of_int (C - 1) * of_int R + 1 \<le> (of_int n :: rat)" by simp
  then have "(of_int (C - 1) * of_int R + 1) / of_int R \<le> x"
    unfolding x_def by (rule divide_right_mono) (use Rpos in linarith)
  moreover have "(of_int (C - 1) * of_int R + 1) / of_int R = of_int C - 1 + 1 / (of_int R :: rat)"
    using Rpos by (simp add: field_simps)
  ultimately have gap: "of_int C - 1 + 1 / of_int R \<le> x" by simp
  have "x / 2 ^ 53 = (of_int n / 2 ^ 53) / of_int R" by (simp add: x_def)
  also have "\<dots> < 1 / of_int R"
  proof (rule divide_strict_right_mono)
    show "(of_int n :: rat) / 2 ^ 53 < 1" using n53 by simp
    show "(0::rat) < of_int R" by (rule Rpos)
  qed
  finally have small: "x / 2 ^ 53 < 1 / of_int R" .
  have "x - x / 2 ^ 53 \<le> r" using r(3) by linarith
  with small gap have lo: "of_int C - 1 < r" by linarith
  from lo up have "\<lceil>r\<rceil> = C" by (rule ceiling_unique)
  moreover have "int_truediv n R = Inr (Finite r)"
    using assms(1) r(1) by (simp add: int_truediv_def x_def)
  ultimately show ?thesis by (simp add: C_def x_def)
qed

lemma grid_shape_exact:
  assumes "1 \<le> n" and "n < 2 ^ 50"
  shows "grid_shape n =
           Inr (isqrt (int n), \<lceil>(of_int (int n) :: rat) / of_int (isqrt (int n))\<rceil>)"
proof -
  define R where "R = isqrt (int n)"
  have n1: "1 \<le> int n" using assms(1) by simp
  have n50: "int n < 2 ^ 50"
  proof -
    from assms(2) have "int n < int (2 ^ 50)" by (simp only: of_nat_less_iff)
    then show ?thesis by simp
  qed
  have Rs: "0 \<le> R" "R * R \<le> int n" "int n < (R + 1) * (R + 1)"
    using isqrt_spec [of "int n"] by (simp_all add: R_def)
  have R1: "1 \<le> R"
  proof (rule ccontr)
    assume "\<not> 1 \<le> R"
    with Rs(1) have "R = 0" by simp
    with Rs(3) n1 show False by simp
  qed
  have "R * 1 \<le> R * R" by (rule mult_left_mono [OF R1 Rs(1)])
  with Rs(2) have Rn: "R \<le> int n" by simp
  from math_sqrt_floor [OF n1 n50] obtain r where
    r: "math_sqrt (int n) = Inr (Finite r)" "of_int R \<le> r" "r < of_int R + 1"
    by (auto simp: R_def)
  have "0 \<le> r" using r(2) Rs(1) by (simp add: order_trans [of 0 "of_int R"])
  moreover have "\<lfloor>r\<rfloor> = R" using r(2) r(3) by (simp add: floor_unique)
  ultimately have pi: "int_part r = R" by (simp add: int_part_def)
  have "int n < 2 ^ 53" using n50 by simp
  from int_truediv_ceiling [OF R1 Rn this] obtain q where
    q: "int_truediv (int n) R = Inr (Finite q)" "\<lceil>q\<rceil> = \<lceil>(of_int (int n) :: rat) / of_int R\<rceil>"
    by blast
  show ?thesis
    using q by (simp add: grid_shape_def and_then_def r(1) pi flip: R_def)
qed

lemma round_half_even_near:
  assumes "\<bar>y - of_int m\<bar> < 1 / 2"
  shows "round_half_even y = m"
proof -
  have "\<bar>(of_int (round_half_even y) :: rat) - of_int m\<bar> < 1"
    using assms round_half_even_upper [of y] round_half_even_lower [of y] by linarith
  then have "\<bar>(of_int (round_half_even y - m) :: rat)\<bar> < of_int 1" by simp
  then have "\<bar>round_half_even y - m\<bar> < 1"
    by (simp only: of_int_less_iff flip: of_int_abs)
  then show ?thesis by linarith
qed

lemma round_double_eval:
  assumes "pow2 e \<le> x" and "x < pow2 (e + 1)" and "- 1022 \<le> e"
    and "\<bar>x / pow2 (e - 52) - of_int m\<bar> < 1 / 2"
    and "of_int m * pow2 (e - 52) < pow2 1024"
  shows "round_double x = Finite (of_int m * pow2 (e - 52))"
  using round_double_normal [OF assms(1-3)] round_half_even_near [OF assms(4)] assms(5)
  by (simp add: Let_def)

lemma float_literal_tenth:
  "float_literal (1 / 10) = Finite (3602879701896397 / 2 ^ 55)"
  using round_double_eval [of "- 4" "1 / 10" 7205759403792794]
  by (simp add: float_literal_def pow2_def)

lemma float_literal_hundredth:
  "float_literal (1 / 100) = Finite (5764607523034235 / 2 ^ 59)"
  using round_double_eval [of "- 7" "1 / 100" 5764607523034235]
  by (simp add: float_literal_def pow2_def)

lemma float_literal_one: "float_literal 1 = Finite 1"
  using round_double_eval [of 0 1 "2 ^ 52"]
  by (simp add: float_literal_def pow2_def)

lemma scaled_dim_100: "scaled_dim 100 default_collage_scale = Inr 10"
  using round_double_eval [of 3 "100 * (3602879701896397 / 2 ^ 55)" 5629499534213120]
        float_of_int_exact [of 100]
  by (simp add: scaled_dim_def and_then_def default_collage_scale_def float_literal_tenth
        pow2_def int_part_def)

lemma scaled_dim_200: "scaled_dim 200 default_collage_scale = Inr 20"
  using round_double_eval [of 4 "200 * (3602879701896397 / 2 ^ 55)" 5629499534213120]
        float_of_int_exact [of 200]
  by (simp add: scaled_dim_def and_then_def default_collage_scale_def float_literal_tenth
        pow2_def int_part_def)

lemma scale_accepted_iff: "scale_accepted s = within_scale_bounds s"
  by (cases s) (simp_all add: scale_accepted_def within_scale_bounds_def float_literal_hundredth float_literal_one)

lemma default_scale_accepted: "within_scale_bounds default_collage_scale"
  by (simp add: within_scale_bounds_def default_collage_scale_def float_literal_tenth)

lemma small_scale_rejected: "\<not> within_scale_bounds (float_literal (1 / 200))"
  using round_double_eval [of "- 8" "1 / 200" 5764607523034235]
  by (simp add: within_scale_bounds_def float_literal_def pow2_def)

section \<open>Configuration Loader: two exceptions are caught, the others escape\<close>









section \<open>Collage Composer: nothing to compose\<close>

lemma scale_images_none_exist:
  "\<forall>f \<in> set image_files. \<not> os_path_exists fs (os_path_join ''vics'' f) \<Longrightarrow>
   scale_images fs s image_files =
     Inr ([], map (\<lambda>f. Line (''Warning: File not found '' @ os_path_join ''vics'' f)) image_files)"
  by (induction image_files) (simp_all add: and_then_def)

lemma make_vic_collage_none_exist:
  assumes "\<forall>f \<in> set image_files. \<not> os_path_exists fs (os_path_join ''vics'' f)"
  shows "make_vic_collage fs epoch image_files s =
           Inr \<lparr>messages =
                  (if image_files = [] then [Line ''No images to create a collage. Exiting...'']
                   else map (\<lambda>f. Line (''Warning: File not found '' @ os_path_join ''vics'' f))
                          image_files
                        @ [Line ''No valid images found for collage. Exiting...'']),
                effects = []\<rparr>"
  using scale_images_none_exist [OF assms, of s]
  by (simp add: make_vic_collage_def and_then_def)

text \<open>
  C6. Called with no file name, or with file names none of which exists in the working
  directory, the composer prints its message (after one warning per name) and returns
  with no effect on the file system: neither the output directory nor a collage is made.
\<close>

theorem make_vic_collage_nothing_to_compose:
  assumes "\<forall>f \<in> set image_files. \<not> os_path_exists fs (os_path_join ''vics'' f)"
  shows "make_vic_collage fs epoch image_files s =
           Inr \<lparr>messages =
                  (if image_files = [] then [Line ''No images to create a collage. Exiting...'']
                   else map (\<lambda>f. Line (''Warning: File not found '' @ os_path_join ''vics'' f))
                          image_files
                        @ [Line ''No valid images found for collage. Exiting...'']),
                effects = []\<rparr>"
  using assms by (rule make_vic_collage_none_exist)

theorem make_vic_collage_nothing_to_compose_witness:
  "\<not> os_path_exists Map.empty (os_path_join ''vics'' ''1.png'')
   \<and> make_vic_collage Map.empty 0 [''1.png''] default_collage_scale =
       Inr \<lparr>messages = [Line ''Warning: File not found vics/1.png'',
                         Line ''No valid images found for collage. Exiting...''],
            effects = []\<rparr>
   \<and> make_vic_collage Map.empty 0 [] default_collage_scale =
       Inr \<lparr>messages = [Line ''No images to create a collage. Exiting...''], effects = []\<rparr>"
  using make_vic_collage_nothing_to_compose
          [where image_files = "[''1.png'']" and fs = Map.empty and epoch = 0
             and s = default_collage_scale]
        make_vic_collage_nothing_to_compose
          [where image_files = "[]" and fs = Map.empty and epoch = 0
             and s = default_collage_scale]
  by (simp add: os_path_exists_def os_path_join_def)

section \<open>Progress Reporter: no tokens, no progress bar\<close>

lemma float_of_int_zero: "float_of_int 0 = Inr (Finite 0)"
  by (simp add: float_of_int_def round_double_def)

lemma float_of_int_error: "float_of_int i = Inl e \<Longrightarrow> e = OverflowError"
  by (auto simp: float_of_int_def split: pyfloat.splits)








section \<open>Batch Downloader: what the progress counter counts\<close>

lemma counter_say [simp]: "counter (say ms st) = counter st"
  by (simp add: say_def)

lemma update_progress_bar_counter:
  "counter (snd (update_progress_bar t st)) = counter st + 1"
  by (simp add: update_progress_bar_def Let_def split: sum.splits)

lemma download_vic_response:
  assumes "http_get w (vic_base_url c) token_id = Response status body"
  shows "\<exists>r st1.
           download_vic w c token_id (Some (update_progress_bar t)) st =
             (case r of
                Some e \<Rightarrow> say [Download_error token_id e] st1
              | None \<Rightarrow>
                  (case update_progress_bar t st1 of
                     (None, st2) \<Rightarrow> st2
                   | (Some e, st2) \<Rightarrow> say [Download_error token_id e] st2))
           \<and> events st1 = events st @ [Http_get token_id]
           \<and> counter st1 = counter st
           \<and> (status \<noteq> 200 \<longrightarrow> files st1 = files st)
           \<and> (r = None \<longleftrightarrow> called_back w c token_id)"
proof (cases "status = 200")
  case False
  with assms show ?thesis
    by (intro exI [of _ None]
          exI [of _ "say [Line (''Failed to get '' @ png_name token_id @ ''. Status code: ''
                                 @ str_int (int status))]
                       (st\<lparr>events := events st @ [Http_get token_id]\<rparr>)"])
       (simp add: download_vic_def called_back_def Let_def say_def)
next
  case True
  show ?thesis
  proof (cases "disk_write w (os_path_join ''vics'' (png_name token_id))")
    case Stored
    with assms True show ?thesis
      by (intro exI [of _ None]
            exI [of _ "say [Line (''Saved Vic '' @ png_name token_id)]
                         (st\<lparr>events := events st @ [Http_get token_id],
                              files := (files st)(os_path_join ''vics'' (png_name token_id)
                                                    \<mapsto> body)\<rparr>)"])
         (simp add: download_vic_def called_back_def Let_def say_def)
  next
    case (Write_fails msg left)
    with assms True show ?thesis
      by (intro exI [of _ "Some (WriteError msg)"]
            exI [of _ "st\<lparr>events := events st @ [Http_get token_id],
                           files := (case left of
                                       None \<Rightarrow> files st
                                     | Some cut_short \<Rightarrow>
                                         (files st)(os_path_join ''vics'' (png_name token_id)
                                                      \<mapsto> cut_short))\<rparr>"])
         (simp add: download_vic_def called_back_def Let_def say_def split: option.split)
  qed
qed

lemma download_vic_counter:
  "counter (download_vic w c token_id (Some (update_progress_bar t)) st) =
     counter st + (if called_back w c token_id then 1 else 0)"
proof (cases "http_get w (vic_base_url c) token_id")
  case (Response status body)
  from download_vic_response [OF this, of t st] obtain r st1 where
    d: "download_vic w c token_id (Some (update_progress_bar t)) st =
          (case r of
             Some e \<Rightarrow> say [Download_error token_id e] st1
           | None \<Rightarrow>
               (case update_progress_bar t st1 of
                  (None, st2) \<Rightarrow> st2
                | (Some e, st2) \<Rightarrow> say [Download_error token_id e] st2))"
    and c1: "counter st1 = counter st"
    and cb: "r = None \<longleftrightarrow> called_back w c token_id"
    by blast
  show ?thesis
  proof (cases r)
    case None
    have "counter (case update_progress_bar t st1 of
             (None, st2) \<Rightarrow> st2
           | (Some e, st2) \<Rightarrow> say [Download_error token_id e] st2) = counter st1 + 1"
      using update_progress_bar_counter [of t st1]
      by (cases "update_progress_bar t st1") (auto split: option.splits)
    with d None c1 cb show ?thesis by simp
  next
    case (Some e)
    with d c1 cb show ?thesis by simp
  qed
next
  case (Transport_error msg)
  then show ?thesis by (simp add: download_vic_def called_back_def Let_def)
qed

lemma fold_download_counter:
  "counter (fold (\<lambda>token_id. download_vic w c token_id (Some (update_progress_bar t))) ids st) =
     counter st + int (length (filter (called_back w c) ids))"
  by (induction ids arbitrary: st) (simp_all add: download_vic_counter)

lemma get_the_vics_counter:
  assumes "get_the_vics w c wallet st = (Inr ids, st')"
  shows "counter st' = int (length (filter (called_back w c) ids))"
proof -
  obtain r st1 where b: "begin_batch w c wallet st = (r, st1)" by (cases "begin_batch w c wallet st")
  with assms have r: "r = Inr ids" and st': "st' = gather_downloads w c ids st1"
    by (auto simp: get_the_vics_def split: sum.splits)
  from b r have "counter st1 = 0"
    by (auto simp: begin_batch_def Let_def split: sum.splits)
  with st' show ?thesis by (simp add: gather_downloads_def fold_download_counter)
qed

lemma counter_reaches_total_when_called_back:
  assumes "get_the_vics w c wallet st = (Inr ids, st')"
    and "\<forall>token_id \<in> set ids. called_back w c token_id"
  shows "counter st' = int (length ids)"
  using get_the_vics_counter [OF assms(1)] assms(2) by simp

lemma print_progress_bar_start:
  "0 < n \<Longrightarrow> n < 2 ^ 53 \<Longrightarrow> \<exists>out. print_progress_bar 0 n prefix suffix len fill = Inr out"
  using float_of_int_exact [of n]
  by (simp add: print_progress_bar_def float_of_int_zero round_double_def)

text \<open>
  C1. Every download task is to call its completion callback exactly once, whatever the
  outcome, so that the progress counter of a batch ends at the number of tokens. The code
  does so for every task that gets to the end of its \<^verbatim>\<open>async with\<close> block
  (\<open>counter_reaches_total_when_called_back\<close>), but not for a request that raises: the
  callback is called at the end of that block, inside \<^verbatim>\<open>try\<close>, and a task whose
  request raises (or whose file cannot be written) goes to the \<^verbatim>\<open>except\<close> branch and
  never calls it. The counter ends at the number of tokens whose task got to the callback
  (\<open>get_the_vics_counter\<close>): for one token and a request that times out, at 0 of 1.
\<close>

theorem callback_skipped_on_transport_error:
  "fst (get_the_vics (sample_world [7] (\<lambda>_. Transport_error ''timed out'')) sample_creator
          ''0xabc'' fresh_state) = Inr [7]
   \<and> counter (snd (get_the_vics (sample_world [7] (\<lambda>_. Transport_error ''timed out''))
                      sample_creator ''0xabc'' fresh_state)) = 0"
proof -
  let ?w = "sample_world [7] (\<lambda>_. Transport_error ''timed out'')"
  obtain out where "print_progress_bar 0 1 ''Progress:'' ''Complete'' 50 full_block = Inr out"
    using print_progress_bar_start [of 1 "''Progress:''" "''Complete''" 50 full_block] by auto
  then have f: "fst (get_the_vics ?w sample_creator ''0xabc'' fresh_state) = Inr [7]"
    by (simp add: get_the_vics_def begin_batch_def makedirs_def sample_world_def fresh_state_def Let_def)
  then obtain st' where g: "get_the_vics ?w sample_creator ''0xabc'' fresh_state = (Inr [7], st')"
    by (cases "get_the_vics ?w sample_creator ''0xabc'' fresh_state") auto
  from get_the_vics_counter [OF g] have "counter st' = 0"
    by (simp add: called_back_def sample_world_def)
  with f g show ?thesis by simp
qed

section \<open>Collage Composer: a missing file in front of the others\<close>

lemma str_int_epoch: "str_int 1700000000 = ''1700000000''"
  by code_simp

lemma isqrt_small: "isqrt 1 = 1" "isqrt 2 = 1" "isqrt 3 = 1"
  by (subst isqrt.simps, simp)+

lemma grid_shape_small: "grid_shape 1 = Inr (1, 1)" "grid_shape 2 = Inr (1, 2)" "grid_shape 3 = Inr (1, 3)"
  using grid_shape_exact [of 1] grid_shape_exact [of 2] grid_shape_exact [of 3]
  by (simp_all add: isqrt_small)

lemma grid_shape_Suc:
  "grid_shape (Suc 0) = Inr (1, 1)" "grid_shape (Suc (Suc 0)) = Inr (1, 2)"
  "grid_shape (Suc (Suc (Suc 0))) = Inr (1, 3)"
  using grid_shape_small by (simp_all add: numeral_2_eq_2 numeral_3_eq_3)

text \<open>
  C2. When some listed files are missing, exactly those are to be skipped and every
  existing file pasted under its own name. The code does not do that: the second loop
  pairs the file names with the scaled images by position, but the scaled images have no
  entry for a missing file, so after a missing name each name is paired with the image of
  a later file. With
  \<^verbatim>\<open>1.png\<close> missing and \<^verbatim>\<open>2.png\<close>, \<^verbatim>\<open>3.png\<close> present, the picture of
  \<^verbatim>\<open>2.png\<close> is never pasted and the picture of \<^verbatim>\<open>3.png\<close> is pasted under the
  label \<open>2\<close>.
\<close>

theorem missing_file_shifts_the_images:
  "make_vic_collage
     (Map.empty(''vics'' \<mapsto> Directory, ''vics/2.png'' \<mapsto> picture ''two'' 100 100,
                ''vics/3.png'' \<mapsto> picture ''three'' 200 100))
     1700000000 [''1.png'', ''2.png'', ''3.png''] default_collage_scale =
   Inr \<lparr>messages =
          [Line ''Warning: File not found vics/1.png'',
           Report 3 default_collage_scale (40, 10) ''output/vics_collage_1700000000.jpg''],
        effects =
          [Make_dirs ''output'',
           Save_image ''output/vics_collage_1700000000.jpg''
             \<lparr>canvas_size = (40, 10), background = (0, 0, 0),
              drawn = [Paste \<lparr>width = 20, height = 10, origin = ''three''\<rparr> (0, 0),
                       Text (0, 0) ''2'']\<rparr>]\<rparr>"
  by (simp add: make_vic_collage_def and_then_def os_path_join_def os_path_exists_def
        image_open_def picture_def scaled_dim_100 scaled_dim_200 resize_def grid_shape_Suc
        py_max_def str_int_epoch splitext_root_def Let_def)

section \<open>Orchestrator: the scale is checked first, the names are those of the tokens\<close>

text \<open>No exception raised below the argument check is a usage error.\<close>

lemma and_then_Inl:
  "and_then m f = Inl e \<Longrightarrow> m = Inl e \<or> (\<exists>x. m = Inr x \<and> f x = Inl e)"
  by (cases m) (simp_all add: and_then_def)

lemma float_div_error: "float_div a b = Inl e \<Longrightarrow> e = ZeroDivisionError"
  by (cases b; cases a) (auto split: if_splits)

lemma py_int_error: "py_int x = Inl e \<Longrightarrow> e \<noteq> UsageError"
  by (cases x) auto

lemma math_ceil_error: "math_ceil x = Inl e \<Longrightarrow> e \<noteq> UsageError"
  by (cases x) auto

lemma int_truediv_error: "int_truediv a b = Inl e \<Longrightarrow> e \<noteq> UsageError"
  by (auto simp: int_truediv_def split: if_splits pyfloat.splits)

lemma math_sqrt_error: "math_sqrt i = Inl e \<Longrightarrow> e \<noteq> UsageError"
  by (auto simp: math_sqrt_def Let_def split: sum.splits pyfloat.splits if_splits
           dest: float_of_int_error)

lemma print_progress_bar_error:
  "print_progress_bar i t p s l f = Inl e \<Longrightarrow> e \<noteq> UsageError"
  by (auto simp: print_progress_bar_def Let_def split: sum.splits
           dest: float_of_int_error float_div_error)

lemma scaled_dim_error: "scaled_dim d s = Inl e \<Longrightarrow> e \<noteq> UsageError"
  by (auto simp: scaled_dim_def dest!: and_then_Inl dest: float_of_int_error py_int_error)

lemma resize_error: "resize img sz = Inl e \<Longrightarrow> e \<noteq> UsageError"
  by (auto simp: resize_def split: if_splits)

lemma image_open_error: "image_open fs p = Inl e \<Longrightarrow> e \<noteq> UsageError"
  by (auto simp: image_open_def split: option.splits node.splits)

lemma grid_shape_error: "grid_shape n = Inl e \<Longrightarrow> e \<noteq> UsageError"
  unfolding grid_shape_def
  by (auto dest!: and_then_Inl dest: math_sqrt_error py_int_error int_truediv_error math_ceil_error)

lemma scale_images_error: "scale_images fs s fl = Inl e \<Longrightarrow> e \<noteq> UsageError"
proof (induction fl arbitrary: e)
  case Nil
  then show ?case by simp
next
  case (Cons f fl)
  show ?case
  proof (cases "os_path_exists fs (os_path_join ''vics'' f)")
    case True
    with Cons.prems show ?thesis
      by (auto simp: Let_def dest!: and_then_Inl
               dest: image_open_error scaled_dim_error resize_error Cons.IH)
  next
    case False
    with Cons.prems show ?thesis
      by (auto simp: Let_def dest!: and_then_Inl dest: Cons.IH)
  qed
qed

lemma make_vic_collage_error: "make_vic_collage fs ep fl s = Inl e \<Longrightarrow> e \<noteq> UsageError"
  unfolding make_vic_collage_def
  by (auto simp: Let_def split: if_splits prod.splits dest!: and_then_Inl
           dest: scale_images_error grid_shape_error)

lemma begin_batch_error: "begin_batch w c wallet st = (Inl e, st') \<Longrightarrow> e \<noteq> UsageError"
  by (auto simp: begin_batch_def makedirs_def Let_def
           split: sum.splits option.splits node.splits dest: print_progress_bar_error)

lemma get_the_vics_error: "get_the_vics w c wallet st = (Inl e, st') \<Longrightarrow> e \<noteq> UsageError"
  by (auto simp: get_the_vics_def split: prod.splits sum.splits dest: begin_batch_error)

lemma process_wallets_error:
  "process_wallets w c wallets acc st = (Inl e, st') \<Longrightarrow> e \<noteq> UsageError"
proof (induction wallets arbitrary: acc st)
  case Nil
  then show ?case by simp
next
  case (Cons x xs)
  then show ?case
    by (auto split: prod.splits sum.splits dest: get_the_vics_error)
qed

lemma events_say [simp]: "events (say ms st) = events st"
  by (simp add: say_def)

lemma files_say [simp]: "files (say ms st) = files st"
  by (simp add: say_def)


lemma update_progress_bar_events:
  "events (snd (update_progress_bar t st)) = events st"
  by (simp add: update_progress_bar_def Let_def split: sum.splits)

lemma download_vic_events:
  "events (download_vic w c token_id (Some (update_progress_bar t)) st) =
     events st @ [Http_get token_id]"
proof (cases "http_get w (vic_base_url c) token_id")
  case (Response status body)
  from download_vic_response [OF this, of t st] obtain r st1 where
    d: "download_vic w c token_id (Some (update_progress_bar t)) st =
          (case r of
             Some e \<Rightarrow> say [Download_error token_id e] st1
           | None \<Rightarrow>
               (case update_progress_bar t st1 of
                  (None, st2) \<Rightarrow> st2
                | (Some e, st2) \<Rightarrow> say [Download_error token_id e] st2))"
    and e1: "events st1 = events st @ [Http_get token_id]"
    by blast
  have "events (case update_progress_bar t st1 of
             (None, st2) \<Rightarrow> st2
           | (Some e, st2) \<Rightarrow> say [Download_error token_id e] st2) = events st1"
    using update_progress_bar_events [of t st1]
    by (cases "update_progress_bar t st1") (auto split: option.splits)
  with d e1 show ?thesis by (cases r) simp_all
next
  case (Transport_error msg)
  then show ?thesis by (simp add: download_vic_def Let_def)
qed

lemma gather_downloads_events:
  "events (gather_downloads w c ids st) = events st @ map Http_get ids"
proof -
  have "events (fold (\<lambda>token_id. download_vic w c token_id (Some (update_progress_bar t))) ids st)
          = events st @ map Http_get ids" for t
    by (induction ids arbitrary: st) (simp_all add: download_vic_events)
  then show ?thesis by (simp add: gather_downloads_def)
qed

lemma begin_batch_events:
  "begin_batch w c wallet st = (r, st') \<Longrightarrow> events st' = events st @ [Resolve_owner wallet]"
  by (auto simp: begin_batch_def makedirs_def Let_def
           split: sum.splits option.splits node.splits)






lemma main_async_alt:
  "main_async w a st =
     (case load_creator w of
        Inl e \<Rightarrow> (Some e, after_config w st)
      | Inr c \<Rightarrow>
          if \<not> scale_accepted (collage_scale a) then (Some UsageError, after_config w st)
          else (case process_wallets w c (target_wallet_addresses a) [] (after_config w st) of
                  (Inl e, st2) \<Rightarrow> (Some e, st2)
                | (Inr all_image_files, st2) \<Rightarrow>
                    if all_image_files \<noteq> []
                    then let st3 = st2\<lparr>events := events st2
                                    @ [Composer_call all_image_files (collage_scale a)]\<rparr>
                         in (case make_vic_collage (files st3) (clock w) all_image_files
                                    (collage_scale a) of
                               Inl e \<Rightarrow> (Some e, st3)
                             | Inr r \<Rightarrow>
                                 (None, (say (messages r) st3)
                                          \<lparr>written := written st3 @ effects r\<rparr>))
                    else (None, say [Line ''No images to create a collage.''] st2)))"
  by (cases "load_configuration (open_file w) (json_load w) ''config.json''")
     (simp add: main_async_def main_async_parsed_def load_creator_def after_config_def Let_def
        split: sum.split)

lemma main_async_rejected:
  assumes "\<not> scale_accepted (collage_scale a)"
  shows "fst (main_async w a st) \<noteq> None \<and> events (snd (main_async w a st)) = events st"
  using assms by (cases "load_creator w") (simp_all add: main_async_alt after_config_def)

lemma main_async_usage_error:
  assumes "load_creator w = Inr c"
  shows "fst (main_async w a st) = Some UsageError \<longleftrightarrow> \<not> scale_accepted (collage_scale a)"
proof (cases "scale_accepted (collage_scale a)")
  case False
  with assms show ?thesis by (simp add: main_async_alt)
next
  case True
  obtain r st2 where p: "process_wallets w c (target_wallet_addresses a) [] (after_config w st) = (r, st2)"
    by (cases "process_wallets w c (target_wallet_addresses a) [] (after_config w st)")
  have "fst (main_async w a st) \<noteq> Some UsageError"
  proof (cases r)
    case (Inl e)
    with p process_wallets_error have "e \<noteq> UsageError" by blast
    with assms True p Inl show ?thesis by (simp add: main_async_alt)
  next
    case (Inr names)
    show ?thesis
    proof (cases "names = []")
      case True
      with assms \<open>scale_accepted (collage_scale a)\<close> p Inr show ?thesis
        by (simp add: main_async_alt)
    next
      case False
      let ?st3 = "st2\<lparr>events := events st2 @ [Composer_call names (collage_scale a)]\<rparr>"
      show ?thesis
      proof (cases "make_vic_collage (files ?st3) (clock w) names (collage_scale a)")
        case (Inl e)
        with make_vic_collage_error have "e \<noteq> UsageError" by blast
        with assms True p Inr False Inl show ?thesis by (simp add: main_async_alt Let_def)
      next
        case (Inr res)
        with assms True p \<open>r = Inr names\<close> False show ?thesis by (simp add: main_async_alt Let_def)
      qed
    qed
  qed
  with True show ?thesis by simp
qed

text \<open>No double lies between one hundredth and the double nearest to it.\<close>

lemma double_above_hundredth:
  assumes "round_double r = Finite r" and "1 / 100 \<le> r"
  shows "5764607523034235 / 2 ^ 59 \<le> r"
proof (rule ccontr)
  assume "\<not> 5764607523034235 / 2 ^ 59 \<le> r"
  then have hi: "r < 5764607523034235 / 2 ^ 59" by simp
  have b: "pow2 (- 7) \<le> r" "r < pow2 (- 7 + 1)"
    using assms(2) hi by (simp_all add: pow2_def)
  define k where "k = round_half_even (r / pow2 (- 7 - 52))"
  from round_double_normal [OF b] assms(1) have "of_int k * pow2 (- 7 - 52) = r"
    by (simp add: Let_def k_def split: if_splits)
  then have r: "r = of_int k / 2 ^ 59" by (simp add: pow2_def)
  from hi have "(of_int k :: rat) < 5764607523034235" by (simp add: r)
  then have "(of_int k :: rat) < of_int 5764607523034235" by simp
  then have "k < 5764607523034235" by (simp only: of_int_less_iff)
  then have "k \<le> 5764607523034234" by simp
  then have "(of_int k :: rat) \<le> of_int 5764607523034234" by (simp only: of_int_le_iff)
  then have "r \<le> 5764607523034234 / 2 ^ 59" by (simp add: r)
  with assms(2) show False by simp
qed

lemma scale_bounds_exact:
  assumes "round_double r = Finite r"
  shows "within_scale_bounds (Finite r) \<longleftrightarrow> 1 / 100 \<le> r \<and> r \<le> 1"
proof
  assume "within_scale_bounds (Finite r)"
  then show "1 / 100 \<le> r \<and> r \<le> 1" by (simp add: within_scale_bounds_def)
next
  assume "1 / 100 \<le> r \<and> r \<le> 1"
  with double_above_hundredth [OF assms] show "within_scale_bounds (Finite r)"
    by (simp add: within_scale_bounds_def)
qed

lemma half_is_double: "round_double (1 / 2) = Finite (1 / 2)"
  using round_double_eval [of "- 1" "1 / 2" "2 ^ 52"] by (simp add: pow2_def)

lemma main_async_parsed_alt:
  "main_async_parsed w p st =
     (case load_creator w of
        Inl e \<Rightarrow> (Some e, after_config w st)
      | Inr c \<Rightarrow>
          (case p of
             Rejected \<Rightarrow> (Some UsageError, after_config w st)
           | Help \<Rightarrow> (Some HelpExit, after_config w st)
           | Namespace a \<Rightarrow> main_async w a st))"
  by (cases "load_configuration (open_file w) (json_load w) ''config.json''")
     (simp add: main_async_def main_async_parsed_def load_creator_def after_config_def Let_def
        split: sum.split parse_result.split)

lemma usage_error_parsed:
  assumes "load_creator w = Inr c"
  shows "fst (main_async_parsed w p st) = Some UsageError \<longleftrightarrow>
           p = Rejected \<or> (\<exists>a. p = Namespace a \<and> \<not> within_scale_bounds (collage_scale a))"
proof (cases p)
  case (Namespace a)
  with assms main_async_usage_error [OF assms, of a st] show ?thesis
    by (simp add: main_async_parsed_alt scale_accepted_iff)
next
  case Rejected
  with assms show ?thesis by (simp add: main_async_parsed_alt)
next
  case Help
  with assms show ?thesis by (simp add: main_async_parsed_alt)
qed

lemma config_failure_parsed:
  assumes "load_creator w = Inl e"
  shows "fst (main_async_parsed w p st) = Some e
         \<and> events (snd (main_async_parsed w p st)) = events st"
  using assms by (simp add: main_async_parsed_alt after_config_def)

lemma stopped_before_the_wallets:
  assumes "p = Rejected \<or> p = Help
           \<or> (\<exists>a. p = Namespace a \<and> \<not> within_scale_bounds (collage_scale a))"
  shows "fst (main_async_parsed w p st) \<noteq> None
         \<and> events (snd (main_async_parsed w p st)) = events st"
proof (cases "load_creator w")
  case (Inl e)
  then show ?thesis by (simp add: main_async_parsed_alt after_config_def)
next
  case (Inr c)
  show ?thesis
  proof (cases p)
    case (Namespace a)
    with assms have "\<not> scale_accepted (collage_scale a)" by (simp add: scale_accepted_iff)
    from main_async_rejected [OF this, of w st] Namespace Inr show ?thesis
      by (simp add: main_async_parsed_alt)
  next
    case Rejected
    with Inr show ?thesis by (simp add: main_async_parsed_alt after_config_def)
  next
    case Help
    with Inr show ?thesis by (simp add: main_async_parsed_alt after_config_def)
  qed
qed

lemma load_creator_sample: "load_creator (sample_world ids host) = Inr sample_creator"
  by (simp add: load_creator_def load_configuration_def sample_world_def make_creator_def
        config_get_def and_then_def sample_creator_def)

lemma load_creator_list_config: "load_creator list_config_world = Inl AttributeError"
  by (simp add: load_creator_def load_configuration_def list_config_world_def sample_world_def
        make_creator_def config_get_def and_then_def)

text \<open>
  C7 says that, whatever the command line, the run ends with a usage error exactly when
  the scale is outside the interval. It does not. The parser ends the run with a usage
  error of its own for a command line that it rejects, one that names no wallet for
  instance, and then there is no scale that the check could find outside the interval. And
  when \<^verbatim>\<open>config.json\<close> holds the list \<^verbatim>\<open>[1]\<close>, a run with the scale
  \<^verbatim>\<open>0.005\<close> ends with AttributeError at the first \<^verbatim>\<open>config.get\<close>, before the
  parser is built: no usage error, although the scale is outside the interval.
\<close>

theorem usage_error_is_not_the_scale_alone:
  "fst (main_async_parsed (sample_world [1] (\<lambda>_. Response 200 Other_file)) Rejected fresh_state) =
     Some UsageError
   \<and> \<not> within_scale_bounds (float_literal (1 / 200))
   \<and> fst (main_async_parsed list_config_world (Namespace (sample_args (float_literal (1 / 200))))
            fresh_state) = Some AttributeError"
  by (simp add: main_async_parsed_alt load_creator_sample load_creator_list_config
        small_scale_rejected)

text \<open>
  C7, as amended. When the configuration loads to a mapping, the run ends with a usage
  error exactly when the parser rejects the command line, or the parser accepts it and the
  scale it names is outside the closed interval from the double \<^verbatim>\<open>0.010\<close> to
  \<^verbatim>\<open>1.0\<close> (a NaN or an infinity is outside). When the configuration does not load to a
  mapping, the run ends with the exception of that, whatever the command line. In each of
  these cases, and when the parser prints its help, the run ends before any wallet is
  resolved and before any image is requested: it adds no event. The default scale, the
  double \<^verbatim>\<open>0.10\<close>, is inside the interval. No double lies between one hundredth and
  the double \<^verbatim>\<open>0.010\<close>, so for the values a float can take the interval is that from
  \<open>1/100\<close> to \<open>1\<close>.
\<close>

theorem usage_error_from_parser_or_scale:
  "(load_creator w = Inr c \<longrightarrow>
      (fst (main_async_parsed w p st) = Some UsageError \<longleftrightarrow>
         p = Rejected \<or> (\<exists>a. p = Namespace a \<and> \<not> within_scale_bounds (collage_scale a))))
   \<and> (load_creator w = Inl e \<longrightarrow>
        fst (main_async_parsed w p st) = Some e
        \<and> events (snd (main_async_parsed w p st)) = events st)
   \<and> (p = Rejected \<or> p = Help
        \<or> (\<exists>a. p = Namespace a \<and> \<not> within_scale_bounds (collage_scale a)) \<longrightarrow>
        fst (main_async_parsed w p st) \<noteq> None
        \<and> events (snd (main_async_parsed w p st)) = events st)
   \<and> within_scale_bounds default_collage_scale
   \<and> (round_double r = Finite r \<longrightarrow>
        (within_scale_bounds (Finite r) \<longleftrightarrow> 1 / 100 \<le> r \<and> r \<le> 1))"
  using usage_error_parsed [of w c p st] config_failure_parsed [of w e p st]
    stopped_before_the_wallets [of p w st] scale_bounds_exact [of r]
  by (simp add: default_scale_accepted)

theorem usage_error_from_parser_or_scale_witness:
  "load_creator (sample_world [1] (\<lambda>_. Response 200 Other_file)) = Inr sample_creator
   \<and> \<not> within_scale_bounds (float_literal (1 / 200))
   \<and> fst (main_async_parsed (sample_world [1] (\<lambda>_. Response 200 Other_file))
            (Namespace (sample_args (float_literal (1 / 200)))) fresh_state) = Some UsageError
   \<and> events (snd (main_async_parsed (sample_world [1] (\<lambda>_. Response 200 Other_file))
                    (Namespace (sample_args (float_literal (1 / 200)))) fresh_state)) = []
   \<and> load_creator list_config_world = Inl AttributeError
   \<and> fst (main_async_parsed list_config_world Help fresh_state) = Some AttributeError
   \<and> events (snd (main_async_parsed list_config_world Help fresh_state)) = []
   \<and> within_scale_bounds default_collage_scale
   \<and> round_double (1 / 2) = Finite (1 / 2)
   \<and> within_scale_bounds (Finite (1 / 2))"
  using usage_error_from_parser_or_scale
          [where w = "sample_world [1] (\<lambda>_. Response 200 Other_file)" and c = sample_creator
             and p = "Namespace (sample_args (float_literal (1 / 200)))" and st = fresh_state
             and r = "1 / 2"]
        usage_error_from_parser_or_scale
          [where w = list_config_world and e = AttributeError and p = Help and st = fresh_state]
  by (simp add: load_creator_sample load_creator_list_config small_scale_rejected
        sample_args_def fresh_state_def half_is_double)


lemma digits_small: "0 \<le> n \<Longrightarrow> n < 10 \<Longrightarrow> digits n = [''0123456789'' ! nat n]"
  by (subst digits.simps) simp

lemma png_name_small:
  "png_name 1 = ''1.png''" "png_name 2 = ''2.png''" "png_name 3 = ''3.png''"
  by (simp_all add: png_name_def str_int_def digits_small)

lemma begin_batch_succeeds:
  assumes "tokens_of_owner w c wallet = Inr raw" and "raw \<noteq> []" and "length raw < 2 ^ 53"
    and "files st ''vics'' = None \<or> files st ''vics'' = Some Directory"
  shows "\<exists>st'. begin_batch w c wallet st = (Inr (sort raw), st')
            \<and> files st' = (if files st ''vics'' = None then (files st)(''vics'' \<mapsto> Directory)
                            else files st)"
proof -
  have "int (length raw) < int (2 ^ 53)" using assms(3) by (simp only: of_nat_less_iff)
  then have "int (length raw) < 2 ^ 53" by simp
  moreover have "0 < int (length raw)" using assms(2) by simp
  ultimately obtain out where
    "print_progress_bar 0 (int (length raw)) ''Progress:'' ''Complete'' 50 full_block = Inr out"
    using print_progress_bar_start by blast
  with assms(1,4) show ?thesis
    by (auto simp: begin_batch_def makedirs_def Let_def say_def)
qed

lemma update_progress_bar_files:
  "files (snd (update_progress_bar t st)) = files st"
  by (simp add: update_progress_bar_def Let_def split: sum.splits)

lemma download_vic_files_unsaved:
  assumes "\<not> saved w c token_id"
  shows "files (download_vic w c token_id (Some (update_progress_bar t)) st) = files st"
proof (cases "http_get w (vic_base_url c) token_id")
  case (Response status body)
  with assms have ne: "status \<noteq> 200" by (simp add: saved_def)
  from download_vic_response [OF Response, of t st] ne obtain r st1 where
    d: "download_vic w c token_id (Some (update_progress_bar t)) st =
          (case r of
             Some e \<Rightarrow> say [Download_error token_id e] st1
           | None \<Rightarrow>
               (case update_progress_bar t st1 of
                  (None, st2) \<Rightarrow> st2
                | (Some e, st2) \<Rightarrow> say [Download_error token_id e] st2))"
    and f1: "files st1 = files st"
    by blast
  have "files (case update_progress_bar t st1 of
             (None, st2) \<Rightarrow> st2
           | (Some e, st2) \<Rightarrow> say [Download_error token_id e] st2) = files st1"
    using update_progress_bar_files [of t st1]
    by (cases "update_progress_bar t st1") (auto split: option.splits)
  with d f1 show ?thesis by (cases r) simp_all
next
  case (Transport_error msg)
  then show ?thesis by (simp add: download_vic_def Let_def)
qed

lemma gather_downloads_files_unsaved:
  assumes "\<forall>token_id \<in> set ids. \<not> saved w c token_id"
  shows "files (gather_downloads w c ids st) = files st"
proof -
  have "files (fold (\<lambda>token_id. download_vic w c token_id (Some (update_progress_bar t))) xs st)
          = files st" if "set xs \<subseteq> set ids" for t xs
    using that assms
    by (induction xs arbitrary: st) (simp_all add: download_vic_files_unsaved)
  then show ?thesis by (simp add: gather_downloads_def)
qed

lemma get_the_vics_succeeds:
  assumes "tokens_of_owner w c wallet = Inr raw" and "raw \<noteq> []" and "length raw < 2 ^ 53"
    and "files st ''vics'' = None \<or> files st ''vics'' = Some Directory"
  shows "\<exists>st'. get_the_vics w c wallet st = (Inr (sort raw), st')
            \<and> (( \<forall>token_id \<in> set raw. \<not> saved w c token_id) \<longrightarrow>
                 files st' = (if files st ''vics'' = None then (files st)(''vics'' \<mapsto> Directory)
                              else files st))"
proof -
  from begin_batch_succeeds [OF assms] obtain st1 where
    b: "begin_batch w c wallet st = (Inr (sort raw), st1)"
       "files st1 = (if files st ''vics'' = None then (files st)(''vics'' \<mapsto> Directory) else files st)"
    by blast
  have "get_the_vics w c wallet st = (Inr (sort raw), gather_downloads w c (sort raw) st1)"
    using b(1) by (simp add: get_the_vics_def)
  moreover have "files (gather_downloads w c (sort raw) st1) = files st1"
    if "\<forall>token_id \<in> set raw. \<not> saved w c token_id"
    using that by (intro gather_downloads_files_unsaved) simp
  ultimately show ?thesis using b(2) by auto
qed

text \<open>A run for one wallet in which no image is saved: it ends normally, having called the
  composer with the names of the tokens.\<close>

lemma sample_run:
  assumes "ids \<noteq> []" and "length ids < 2 ^ 53"
    and "\<forall>token_id \<in> set ids. \<not> saved (sample_world ids host) sample_creator token_id"
    and "files st ''vics'' = None \<or> files st ''vics'' = Some Directory"
    and "\<forall>token_id \<in> set ids. files st (os_path_join ''vics'' (png_name token_id)) = None"
    and "\<forall>token_id \<in> set ids. os_path_join ''vics'' (png_name token_id) \<noteq> ''vics''"
    and "scale_accepted s"
  shows "fst (main_async (sample_world ids host) (sample_args s) st) = None
         \<and> events (snd (main_async (sample_world ids host) (sample_args s) st)) =
             events st @ Resolve_owner ''0xabc'' # map Http_get (sort ids)
               @ [Composer_call (map png_name (sort ids)) s]
         \<and> files (snd (main_async (sample_world ids host) (sample_args s) st)) =
             (if files st ''vics'' = None then (files st)(''vics'' \<mapsto> Directory) else files st)"
proof -
  let ?w = "sample_world ids host"
  let ?st0 = "say [Line (''Processing wallet: '' @ ''0xabc'')] (after_config ?w st)"
  have t: "tokens_of_owner ?w sample_creator ''0xabc'' = Inr ids"
    by (simp add: sample_world_def)
  have v: "files ?st0 ''vics'' = None \<or> files ?st0 ''vics'' = Some Directory"
    using assms(4) by (simp add: after_config_def)
  from get_the_vics_succeeds [OF t assms(1,2) v] assms(3) obtain st1 where
    g: "get_the_vics ?w sample_creator ''0xabc'' ?st0 = (Inr (sort ids), st1)"
    and f1: "files st1 = (if files st ''vics'' = None then (files st)(''vics'' \<mapsto> Directory)
                          else files st)"
    by (auto simp: after_config_def)
  have e1: "events st1 = events st @ Resolve_owner ''0xabc'' # map Http_get (sort ids)"
  proof -
    obtain st' where b: "begin_batch ?w sample_creator ''0xabc'' ?st0 = (Inr (sort ids), st')"
      and "st1 = gather_downloads ?w sample_creator (sort ids) st'"
      using g by (auto simp: get_the_vics_def split: prod.splits sum.splits)
    with begin_batch_events [OF b] show ?thesis
      by (simp add: gather_downloads_events after_config_def)
  qed
  let ?names = "map png_name (sort ids)"
  have p: "process_wallets ?w sample_creator [''0xabc''] [] (after_config ?w st) = (Inr ?names, st1)"
    using g by simp
  have "length (sort ids) = length ids" by simp
  with assms(1) have "sort ids \<noteq> []" by (metis length_0_conv)
  then have ne: "?names \<noteq> []" by simp
  let ?st3 = "st1\<lparr>events := events st1 @ [Composer_call ?names s]\<rparr>"
  have "\<forall>f \<in> set ?names. \<not> os_path_exists (files ?st3) (os_path_join ''vics'' f)"
    using assms(5,6) by (auto simp: f1 os_path_exists_def)
  from make_vic_collage_none_exist [OF this]
  have "\<exists>res. make_vic_collage (files ?st3) (clock ?w) ?names s = Inr res" by blast
  then obtain res where m: "make_vic_collage (files ?st3) (clock ?w) ?names s = Inr res" ..
  have "main_async ?w (sample_args s) st =
          (None, (say (messages res) ?st3)\<lparr>written := written ?st3 @ effects res\<rparr>)"
    using p ne m assms(7)
    by (simp add: main_async_alt load_creator_sample sample_args_def Let_def)
  then show ?thesis by (simp add: e1 f1)
qed

lemma scale_accepted_default: "scale_accepted default_collage_scale"
  by (simp add: scale_accepted_iff default_scale_accepted)


section \<open>The working directory is reset at the end of a normal run only\<close>

text \<open>
  C8 says that the downloads always start in an empty directory. They do not: with
  \<^verbatim>\<open>vics/9.png\<close> left by an earlier run, the file is still there when the tasks
  are created.
\<close>

theorem downloads_start_among_stale_files:
  "fst (begin_batch (sample_world [1] (\<lambda>_. Response 404 Other_file)) sample_creator ''0xabc''
          stale_state) = Inr [1]
   \<and> files (snd (begin_batch (sample_world [1] (\<lambda>_. Response 404 Other_file)) sample_creator
                    ''0xabc'' stale_state)) ''vics/9.png'' = Some (picture ''old'' 10 10)"
  using begin_batch_succeeds [of "sample_world [1] (\<lambda>_. Response 404 Other_file)" sample_creator
          "''0xabc''" "[1]" stale_state]
  by (auto simp: sample_world_def stale_state_def fresh_state_def)

lemma script_main_reset:
  assumes "fst (script_main w a st) = None"
  shows "files (snd (script_main w a st)) ''vics'' = Some Directory
         \<and> (\<forall>p. inside ''vics'' p \<and> p \<noteq> ''vics'' \<longrightarrow> files (snd (script_main w a st)) p = None)"
proof (cases "main_async w a st")
  case (Pair r st1)
  with assms have "r = None"
    by (cases r) (simp_all add: script_main_def)
  with Pair assms have m: "os_mkdir ''vics'' (rmtree ''vics'' st1) \<noteq> Inl FileExistsError"
    by (auto simp: script_main_def os_mkdir_def split: if_splits)
  then have gone: "files (rmtree ''vics'' st1) ''vics'' = None"
    by (auto simp: os_mkdir_def split: if_splits)
  then have cleared: "files (rmtree ''vics'' st1) = (\<lambda>p. if inside ''vics'' p then None else files st1 p)"
    by (auto simp: rmtree_def split: option.splits node.splits)
  from Pair \<open>r = None\<close> gone have "script_main w a st =
      (None, (rmtree ''vics'' st1)\<lparr>files := (files (rmtree ''vics'' st1))(''vics'' \<mapsto> Directory)\<rparr>)"
    by (simp add: script_main_def os_mkdir_def)
  then show ?thesis by (simp add: cleared)
qed

lemma script_main_exception:
  "fst (main_async w a st) \<noteq> None \<Longrightarrow> script_main w a st = main_async w a st"
  by (cases "main_async w a st") (auto simp: script_main_def)

lemma begin_batch_keeps_files:
  "begin_batch w c wallet st = (Inr ids, st') \<Longrightarrow>
     files st' = (if files st ''vics'' = None then (files st)(''vics'' \<mapsto> Directory) else files st)"
  by (auto simp: begin_batch_def makedirs_def Let_def say_def
           split: sum.splits option.splits node.splits)

text \<open>
  C8, as amended. The working directory is deleted and made again only after
  \<^verbatim>\<open>main_async\<close> has returned normally, and is then empty; a run that ends with an
  exception leaves the file system as \<^verbatim>\<open>main_async\<close> left it. Before the downloads,
  \<^verbatim>\<open>get_the_vics\<close> only creates the directory when it is missing: the files already
  in it stay.
\<close>

theorem working_directory_reset_at_normal_exit_only:
  "(fst (script_main w a st) = None \<longrightarrow>
      files (snd (script_main w a st)) ''vics'' = Some Directory
      \<and> (\<forall>p. inside ''vics'' p \<and> p \<noteq> ''vics'' \<longrightarrow> files (snd (script_main w a st)) p = None))
   \<and> (fst (main_async w a st) \<noteq> None \<longrightarrow> script_main w a st = main_async w a st)
   \<and> (begin_batch w c wallet st = (Inr ids, st') \<longrightarrow>
        files st' = (if files st ''vics'' = None then (files st)(''vics'' \<mapsto> Directory)
                     else files st))"
  using script_main_reset [of w a st] script_main_exception [of w a st]
    begin_batch_keeps_files [of w c wallet st ids st']
  by blast

theorem working_directory_reset_at_normal_exit_only_witness:
  "fst (script_main (sample_world [1] (\<lambda>_. Response 404 Other_file))
          (sample_args default_collage_scale) stale_state) = None
   \<and> files (snd (script_main (sample_world [1] (\<lambda>_. Response 404 Other_file))
                    (sample_args default_collage_scale) stale_state)) ''vics'' = Some Directory
   \<and> files (snd (script_main (sample_world [1] (\<lambda>_. Response 404 Other_file))
                    (sample_args default_collage_scale) stale_state)) ''vics/9.png'' = None
   \<and> fst (main_async (sample_world [1] (\<lambda>_. Response 404 Other_file))
            (sample_args (float_literal (1 / 200))) stale_state) = Some UsageError
   \<and> files (snd (script_main (sample_world [1] (\<lambda>_. Response 404 Other_file))
                    (sample_args (float_literal (1 / 200))) stale_state)) ''vics/9.png'' =
       Some (picture ''old'' 10 10)
   \<and> fst (begin_batch (sample_world [1] (\<lambda>_. Response 404 Other_file)) sample_creator ''0xabc''
            stale_state) = Inr [1]
   \<and> files (snd (begin_batch (sample_world [1] (\<lambda>_. Response 404 Other_file)) sample_creator
                    ''0xabc'' stale_state)) = files stale_state"
proof -
  let ?w = "sample_world [1] (\<lambda>_. Response 404 Other_file)"
  let ?a = "sample_args default_collage_scale"
  let ?b = "sample_args (float_literal (1 / 200))"
  have m: "fst (main_async ?w ?a stale_state) = None
           \<and> files (snd (main_async ?w ?a stale_state)) ''vics'' = Some Directory"
    using sample_run [of "[1]" "\<lambda>_. Response 404 Other_file" stale_state default_collage_scale]
    by (simp add: saved_def sample_world_def stale_state_def fresh_state_def png_name_small
          os_path_join_def scale_accepted_default)
  then have s: "fst (script_main ?w ?a stale_state) = None"
    by (cases "main_async ?w ?a stale_state") (simp add: script_main_def os_mkdir_def rmtree_def inside_def)
  have u: "fst (main_async ?w ?b stale_state) = Some UsageError"
    by (simp add: main_async_alt load_creator_sample sample_args_def scale_accepted_iff
          small_scale_rejected)
  have u2: "files (snd (main_async ?w ?b stale_state)) = files stale_state"
    by (simp add: main_async_alt load_creator_sample sample_args_def scale_accepted_iff
          small_scale_rejected after_config_def)
  have b: "fst (begin_batch ?w sample_creator ''0xabc'' stale_state) = Inr [1]"
    using begin_batch_succeeds [of ?w sample_creator "''0xabc''" "[1]" stale_state]
    by (auto simp: sample_world_def stale_state_def fresh_state_def)
  then have b': "begin_batch ?w sample_creator ''0xabc'' stale_state =
                   (Inr [1], snd (begin_batch ?w sample_creator ''0xabc'' stale_state))"
    by (simp add: prod_eq_iff)
  have i: "inside ''vics'' ''vics/9.png''" by (simp add: inside_def)
  from working_directory_reset_at_normal_exit_only
         [where w = ?w and a = ?a and st = stale_state and c = sample_creator
            and wallet = "''0xabc''" and ids = "[1]"
            and st' = "snd (begin_batch ?w sample_creator ''0xabc'' stale_state)"]
       working_directory_reset_at_normal_exit_only
         [where w = ?w and a = ?b and st = stale_state]
       s u u2 b b' i
  show ?thesis
    by (simp add: stale_state_def fresh_state_def)
qed

section \<open>Collage Composer: the order and the positions of the images\<close>

lemma placed_Cons:
  "placed ((f, img) # rest) (pos # others) =
     Paste img pos # Text pos (splitext_root f) # placed rest others"
  by (simp add: placed_def)

lemma paste_loop_all_exist:
  assumes "\<forall>f \<in> set (map fst named_images). os_path_exists fs (os_path_join ''vics'' f)"
  shows "paste_loop fs canvas_width named_images (x, y) =
           placed named_images (cursor_positions canvas_width (map snd named_images) (x, y))"
  using assms
proof (induction named_images arbitrary: x y)
  case Nil
  then show ?case by (simp add: placed_def)
next
  case (Cons a rest)
  obtain f img where a: "a = (f, img)" by (cases a)
  from Cons.prems a have ex: "os_path_exists fs (os_path_join ''vics'' f)"
    and rest: "\<forall>f \<in> set (map fst rest). os_path_exists fs (os_path_join ''vics'' f)"
    by simp_all
  show ?case
    using ex Cons.IH [OF rest] by (simp add: a placed_Cons Let_def)
qed


lemma opened_images_all_exist:
  assumes "\<forall>f \<in> set image_files. os_path_exists fs (os_path_join ''vics'' f)"
    and "scale_images fs s image_files = Inr (scaled, warnings)"
  shows "warnings = [] \<and>
         list_all2 (\<lambda>f img. \<exists>src. fs (os_path_join ''vics'' f) = Some (Image_file src)
                                   \<and> origin img = origin src) image_files scaled"
  using assms
proof (induction image_files arbitrary: scaled warnings)
  case Nil
  then show ?case by simp
next
  case (Cons f rest)
  let ?p = "os_path_join ''vics'' f"
  from Cons.prems(1) have ex: "os_path_exists fs ?p"
    and rest: "\<forall>f \<in> set rest. os_path_exists fs (os_path_join ''vics'' f)" by simp_all
  with Cons.prems(2) obtain img w h sc imgs ws where
      o: "image_open fs ?p = Inr img" and rs: "resize img (w, h) = Inr sc"
      and r: "scale_images fs s rest = Inr (imgs, ws)" and sc: "scaled = sc # imgs"
      and ws: "warnings = ws"
    by (auto simp: Let_def and_then_def split: sum.splits)
  from o have src: "fs ?p = Some (Image_file img)"
    by (auto simp: image_open_def split: option.splits node.splits)
  from rs have d: "origin sc = origin img"
    by (auto simp: resize_def split: if_splits)
  from Cons.IH [OF rest r] src d sc ws show ?case by simp
qed

lemma make_vic_collage_drawn:
  assumes "make_vic_collage fs epoch image_files s = Inr res" and "image_files \<noteq> []"
    and "scale_images fs s image_files = Inr (scaled, warnings)" and "scaled \<noteq> []"
  shows "\<exists>pic path. effects res = [Make_dirs ''output'', Save_image path pic]
           \<and> drawn pic = paste_loop fs (fst (canvas_size pic)) (zip image_files scaled) (0, 0)"
  using assms
  by (auto simp: make_vic_collage_def and_then_def Let_def split: sum.splits prod.splits)

text \<open>
  C5. When every listed file exists, the images are pasted in the order of the list: the
  \<open>i\<close>-th pasted image is the scaled image of the \<open>i\<close>-th file, the positions are
  those of the cursor that starts at \<open>(0, 0)\<close>, moves right by the width of each pasted
  image and, once it has reached the canvas width, returns to \<open>x = 0\<close> and moves down by
  the height of the image just pasted; each label is drawn at the position of its image.
\<close>

theorem images_pasted_in_list_order:
  assumes "\<forall>f \<in> set image_files. os_path_exists fs (os_path_join ''vics'' f)"
    and "image_files \<noteq> []"
    and "make_vic_collage fs epoch image_files s = Inr res"
  shows "\<exists>scaled pic path.
           effects res = [Make_dirs ''output'', Save_image path pic]
           \<and> list_all2 (\<lambda>f img. \<exists>src. fs (os_path_join ''vics'' f) = Some (Image_file src)
                                      \<and> origin img = origin src) image_files scaled
           \<and> drawn pic =
               placed (zip image_files scaled)
                 (cursor_positions (fst (canvas_size pic)) scaled (0, 0))"
proof -
  from assms(2,3) obtain scaled warnings where
    sc: "scale_images fs s image_files = Inr (scaled, warnings)"
    by (auto simp: make_vic_collage_def and_then_def split: sum.splits)
  from opened_images_all_exist [OF assms(1) sc]
  have l: "list_all2 (\<lambda>f img. \<exists>src. fs (os_path_join ''vics'' f) = Some (Image_file src)
                                      \<and> origin img = origin src) image_files scaled"
    by simp
  then have len: "length image_files = length scaled" by (rule list_all2_lengthD)
  with assms(2) have ne: "scaled \<noteq> []" by auto
  from make_vic_collage_drawn [OF assms(3,2) sc ne] obtain pic path where
    e: "effects res = [Make_dirs ''output'', Save_image path pic]"
    and d: "drawn pic = paste_loop fs (fst (canvas_size pic)) (zip image_files scaled) (0, 0)"
    by blast
  have "\<forall>f \<in> set (map fst (zip image_files scaled)). os_path_exists fs (os_path_join ''vics'' f)"
    using assms(1) len by simp
  from paste_loop_all_exist [OF this] d len
  have "drawn pic = placed (zip image_files scaled)
                      (cursor_positions (fst (canvas_size pic)) scaled (0, 0))"
    by simp
  with e l show ?thesis by blast
qed

section \<open>Collage Composer: the grid, the sizes and the canvas\<close>








section \<open>A collage of four pictures\<close>

lemma scaled_dim_300: "scaled_dim 300 default_collage_scale = Inr 30"
  using round_double_eval [of 4 "300 * (3602879701896397 / 2 ^ 55)" 8444249301319680]
        float_of_int_exact [of 300]
  by (simp add: scaled_dim_def and_then_def default_collage_scale_def float_literal_tenth
        pow2_def int_part_def)

lemma isqrt_4: "isqrt 4 = 2"
  by (subst isqrt.simps) (simp add: isqrt_small)

lemma grid_shape_4: "grid_shape (Suc (Suc (Suc (Suc 0)))) = Inr (2, 2)"
proof -
  have "grid_shape 4 = Inr (2, 2)"
    using grid_shape_exact [of 4] by (simp add: isqrt_4)
  moreover have "Suc (Suc (Suc (Suc 0))) = 4" by simp
  ultimately show ?thesis by (simp only:)
qed

lemma scale_four:
  "scale_images four_pictures default_collage_scale [''3.png'', ''1.png'', ''4.png'', ''2.png''] =
     Inr (four_scaled, [])"
  by (simp add: four_pictures_def four_scaled_def and_then_def os_path_join_def os_path_exists_def
        image_open_def picture_def scaled_dim_100 scaled_dim_200 scaled_dim_300 resize_def)

lemma collage_four:
  "make_vic_collage four_pictures 1700000000 [''3.png'', ''1.png'', ''4.png'', ''2.png'']
     default_collage_scale = Inr four_collage"
proof -
  have ex: "os_path_exists four_pictures (os_path_join ''vics'' ''3.png'')"
    "os_path_exists four_pictures (os_path_join ''vics'' ''1.png'')"
    "os_path_exists four_pictures (os_path_join ''vics'' ''4.png'')"
    "os_path_exists four_pictures (os_path_join ''vics'' ''2.png'')"
    by (simp_all add: four_pictures_def os_path_join_def os_path_exists_def)
  have p: "paste_loop four_pictures 40 (zip [''3.png'', ''1.png'', ''4.png'', ''2.png''] four_scaled) (0, 0) =
      [Paste \<lparr>width = 20, height = 30, origin = ''three''\<rparr> (0, 0), Text (0, 0) ''3'',
       Paste \<lparr>width = 20, height = 10, origin = ''one''\<rparr> (20, 0), Text (20, 0) ''1'',
       Paste \<lparr>width = 20, height = 10, origin = ''four''\<rparr> (0, 10), Text (0, 10) ''4'',
       Paste \<lparr>width = 20, height = 10, origin = ''two''\<rparr> (20, 10), Text (20, 10) ''2'']"
    by (simp add: four_scaled_def ex splitext_root_def)
  have m: "py_max (map width four_scaled) = 20" "py_max (map height four_scaled) = 30"
    "length four_scaled = Suc (Suc (Suc (Suc 0)))" "four_scaled \<noteq> []"
    by (simp_all add: four_scaled_def py_max_def)
  show ?thesis
    unfolding make_vic_collage_def scale_four
    by (simp add: and_then_def m grid_shape_4 p str_int_epoch os_path_join_def four_collage_def
          Let_def)
qed

theorem images_pasted_in_list_order_witness:
  "make_vic_collage four_pictures 1700000000 [''3.png'', ''1.png'', ''4.png'', ''2.png'']
     default_collage_scale = Inr four_collage
   \<and> cursor_positions 40 four_scaled (0, 0) = [(0, 0), (20, 0), (0, 10), (20, 10)]
   \<and> (\<exists>scaled pic path.
           effects four_collage = [Make_dirs ''output'', Save_image path pic]
           \<and> list_all2 (\<lambda>f img. \<exists>src. four_pictures (os_path_join ''vics'' f) = Some (Image_file src)
                                      \<and> origin img = origin src)
                 [''3.png'', ''1.png'', ''4.png'', ''2.png''] scaled
           \<and> drawn pic =
               placed (zip [''3.png'', ''1.png'', ''4.png'', ''2.png''] scaled)
                 (cursor_positions (fst (canvas_size pic)) scaled (0, 0)))"
proof -
  have ex: "\<forall>f \<in> set [''3.png'', ''1.png'', ''4.png'', ''2.png''].
              os_path_exists four_pictures (os_path_join ''vics'' f)"
    by (simp add: four_pictures_def os_path_join_def os_path_exists_def)
  have c: "cursor_positions 40 four_scaled (0, 0) = [(0, 0), (20, 0), (0, 10), (20, 10)]"
    by (simp add: four_scaled_def)
  from images_pasted_in_list_order [OF ex _ collage_four] collage_four c
  show ?thesis by simp
qed


end
